theory Spec2Isabelle
  imports Main "HOL-Library.Sublist"
begin

section \<open>The document tree\<close>

text \<open>
  A point is a line and a column (both 1-based) and an optional offset
  into the source text; a position is a start point and an end point.
  A node carries its type tag, an optional position, the type-specific
  fields the rules read (\<open>identifier\<close>, here \<open>ident\<close>, \<open>value\<close>, \<open>alt\<close>, \<open>depth\<close>) and its
  children. A leaf has no children.
\<close>

record point =
  line :: nat
  column :: nat
  offset :: "nat option"

record position =
  start :: point
  end_pt :: point

datatype node =
  Node (ntype: string) (position: "position option") (ident: string)
       (nvalue: "string option") (alt: "string option") (depth: nat)
       (children: "node list")

subsection \<open>Positions of nodes (unist-util-position)\<close>

text \<open>
  The current interface: \<open>pointStart\<close>, \<open>pointEnd\<close> and \<open>position\<close> return
  nothing unless the point has a positive line and a positive column.
  They accept a missing node (\<open>children[0]\<close> of a node without children).
\<close>

definition valid_point :: "point \<Rightarrow> point option" where
  "valid_point p = (if 0 < line p \<and> 0 < column p then Some p else None)"

definition pointStart :: "node \<Rightarrow> point option" where
  "pointStart n = (case position n of None \<Rightarrow> None | Some p \<Rightarrow> valid_point (start p))"

definition pointEnd :: "node \<Rightarrow> point option" where
  "pointEnd n = (case position n of None \<Rightarrow> None | Some p \<Rightarrow> valid_point (end_pt p))"

definition pointStart_opt :: "node option \<Rightarrow> point option" where
  "pointStart_opt m = (case m of None \<Rightarrow> None | Some n \<Rightarrow> pointStart n)"

definition position_of :: "node \<Rightarrow> position option" where
  "position_of n =
     (case pointStart n of
        None \<Rightarrow> None
      | Some s \<Rightarrow> (case pointEnd n of
                    None \<Rightarrow> None
                  | Some e \<Rightarrow> Some \<lparr>start = s, end_pt = e\<rparr>))"

subsection \<open>Diagnostics\<close>

text \<open>
  \<open>file.message(reason, place)\<close> records a reason and the place it was
  given: a node, a position, a point, a pair of points of the earlier position
  interface (whose fields may be null), or nothing (a file-level message).
  \<open>file.fail(reason)\<close> throws: a run that fails returns the failure and no
  list of diagnostics.
\<close>

record legacy_point =
  lline :: "nat option"
  lcolumn :: "nat option"
  loffset :: "nat option"

datatype place =
  AtNode node | AtPosition position | AtPoint point | AtRange legacy_point legacy_point | NoPlace

record diag =
  reason :: string
  place :: place

datatype failure = Fail string

subsection \<open>Numbers and points as text\<close>

definition digit :: "nat \<Rightarrow> char" where
  "digit d = (''0123456789'' ! d)"

fun digits :: "nat \<Rightarrow> string" where
  "digits n = (if n < 10 then [digit n] else digits (n div 10) @ [digit (n mod 10)])"

declare digits.simps [simp del]

text \<open>\<open>stringifyPosition\<close> of a point: \<open>line:column\<close>, a missing number read as 1.\<close>

definition index_or_1 :: "nat \<Rightarrow> nat" where
  "index_or_1 v = (if v = 0 then 1 else v)"

definition stringifyPosition :: "point \<Rightarrow> string" where
  "stringifyPosition p = digits (index_or_1 (line p)) @ '':'' @ digits (index_or_1 (column p))"

section \<open>final-newline\<close>

text \<open>\<open>value.charAt(i)\<close>: the character at \<open>i\<close>, the empty string out of range.\<close>

definition charAt :: "string \<Rightarrow> int \<Rightarrow> string" where
  "charAt s i = (if 0 \<le> i \<and> i < int (length s) then [s ! nat i] else [])"

definition remarkLintFinalNewline :: "string \<Rightarrow> diag list" where
  "remarkLintFinalNewline file =
     (let last_ix = int (length file) - 1 in
      if last_ix > - 1 \<and> charAt file last_ix \<noteq> [CHR 0x0A]
      then [\<lparr>reason = ''Missing newline character at end of file'', place = NoPlace\<rparr>]
      else [])"

section \<open>Visiting (unist-util-visit)\<close>

text \<open>
  \<open>visit(tree, visitor)\<close> calls the visitor on every node, the node before its
  children and the children in order; \<open>visit(tree, test, visitor)\<close> calls it on
  the nodes of that type only. A rule is a visitor run over the visited nodes
  with the variables it updates as an explicit state.
\<close>

fun visit_all :: "node \<Rightarrow> node list" where
  "visit_all (Node t p i v a d cs) = Node t p i v a d cs # concat (map visit_all cs)"

definition visit :: "node \<Rightarrow> string \<Rightarrow> node list" where
  "visit tree test = filter (\<lambda>n. ntype n = test) (visit_all tree)"

fun run :: "('s \<Rightarrow> 'a \<Rightarrow> 's \<times> diag list) \<Rightarrow> 's \<Rightarrow> 'a list \<Rightarrow> 's \<times> diag list" where
  "run f s [] = (s, [])"
| "run f s (x # xs) =
     (case f s x of (s', ds) \<Rightarrow> (case run f s' xs of (s'', ds') \<Rightarrow> (s'', ds @ ds')))"

section \<open>rule-style\<close>

text \<open>\<open>value.slice(a, b)\<close> for offsets that are natural numbers.\<close>

definition slice :: "string \<Rightarrow> nat \<Rightarrow> nat \<Rightarrow> string" where
  "slice s a b = take (b - a) (drop a s)"

text \<open>The test \<open>/[^-_* ]/.test(option)\<close>.\<close>

definition bad_style :: "string \<Rightarrow> bool" where
  "bad_style s = (\<exists>c \<in> set s. c \<notin> set ''-_* '')"

definition rule_style_fail :: string where
  "rule_style_fail =
     ''Incorrect preferred rule style: provide a correct markdown rule or `'consistent'`''"

definition rule_style_visitor :: "string \<Rightarrow> string \<Rightarrow> node \<Rightarrow> string \<times> diag list" where
  "rule_style_visitor value opt node =
     (case pointEnd node of
        None \<Rightarrow> (opt, [])
      | Some e \<Rightarrow>
        (case pointStart node of
           None \<Rightarrow> (opt, [])
         | Some s \<Rightarrow>
           (case offset s of
              None \<Rightarrow> (opt, [])
            | Some so \<Rightarrow>
              (case offset e of
                 None \<Rightarrow> (opt, [])
               | Some eo \<Rightarrow>
                 (let rule = slice value so eo in
                  if opt = ''consistent'' then (rule, [])
                  else if rule \<noteq> opt
                  then (opt, [\<lparr>reason = ''Rules should use `'' @ opt @ ''`'',
                               place = AtNode node\<rparr>])
                  else (opt, []))))))"

definition remarkLintRuleStyle :: "node \<Rightarrow> string \<Rightarrow> string option \<Rightarrow> failure + diag list" where
  "remarkLintRuleStyle tree file options =
     (let opt = (case options of
                   None \<Rightarrow> ''consistent''
                 | Some v \<Rightarrow> if v = [] then ''consistent'' else v)
      in if opt \<noteq> ''consistent'' \<and> bad_style opt
         then Inl (Fail rule_style_fail)
         else Inr (snd (run (rule_style_visitor file) opt (visit tree ''thematicBreak''))))"

subsection \<open>The earlier rule-style, on the earlier position interface\<close>

text \<open>
  The earlier \<open>pointStart\<close> and \<open>pointEnd\<close> always return a point, whose
  fields are null where the node (or the node itself) is missing;
  \<open>generated\<close> tells whether a node lacks a start or an end with a line and a
  column. In arithmetic and as an index null counts as 0.
\<close>

definition legacy_point_of :: "point option \<Rightarrow> legacy_point" where
  "legacy_point_of m =
     (case m of
        None \<Rightarrow> \<lparr>lline = None, lcolumn = None, loffset = None\<rparr>
      | Some p \<Rightarrow> \<lparr>lline = (if line p = 0 then None else Some (line p)),
                   lcolumn = (if column p = 0 then None else Some (column p)),
                   loffset = offset p\<rparr>)"

definition pointStart_legacy :: "node option \<Rightarrow> legacy_point" where
  "pointStart_legacy m =
     legacy_point_of (case m of None \<Rightarrow> None | Some n \<Rightarrow> map_option start (position n))"

definition pointEnd_legacy :: "node option \<Rightarrow> legacy_point" where
  "pointEnd_legacy m =
     legacy_point_of (case m of None \<Rightarrow> None | Some n \<Rightarrow> map_option end_pt (position n))"

definition generated :: "node \<Rightarrow> bool" where
  "generated n =
     (case position n of
        None \<Rightarrow> True
      | Some p \<Rightarrow> line (start p) = 0 \<or> column (start p) = 0
                 \<or> line (end_pt p) = 0 \<or> column (end_pt p) = 0)"

definition js_num :: "nat option \<Rightarrow> nat" where
  "js_num m = (case m of None \<Rightarrow> 0 | Some n \<Rightarrow> n)"

definition truthy :: "string option \<Rightarrow> bool" where
  "truthy m = (case m of None \<Rightarrow> False | Some s \<Rightarrow> s \<noteq> [])"

definition ruleStyle_visitor :: "string \<Rightarrow> string option \<Rightarrow> node \<Rightarrow> string option \<times> diag list" where
  "ruleStyle_visitor contents preferred node =
     (let initial = loffset (pointStart_legacy (Some node));
          final = loffset (pointEnd_legacy (Some node))
      in if \<not> generated node
         then (let rule = slice contents (js_num initial) (js_num final) in
               if truthy preferred
               then (if rule \<noteq> the preferred
                     then (preferred, [\<lparr>reason = ''Rules should use `'' @ the preferred @ ''`'',
                                        place = AtNode node\<rparr>])
                     else (preferred, []))
               else (Some rule, []))
         else (preferred, []))"

definition ruleStyle :: "node \<Rightarrow> string \<Rightarrow> string option \<Rightarrow> failure + diag list" where
  "ruleStyle tree file opt =
     (let preferred = (case opt of
                         None \<Rightarrow> None
                       | Some v \<Rightarrow> if v \<noteq> ''consistent'' then Some v else None)
      in if preferred \<noteq> None \<and> bad_style (the preferred)
         then Inl (Fail rule_style_fail)
         else Inr (snd (run (ruleStyle_visitor file) preferred (visit tree ''thematicBreak''))))"

section \<open>blockquote-indentation\<close>

text \<open>
  The option is a number or \<open>'consistent'\<close>. \<open>pluralize(word, n)\<close> is the word
  for \<open>n = 1\<close> and its plural otherwise.
\<close>

datatype indent_option = Width int | Consistent

definition pluralize :: "string \<Rightarrow> nat \<Rightarrow> string" where
  "pluralize word n = (if n = 1 then word else word @ ''s'')"

definition blockquote_visitor :: "indent_option \<Rightarrow> node \<Rightarrow> indent_option \<times> diag list" where
  "blockquote_visitor opt node =
     (let st = pointStart node;
          hd0 = pointStart_opt (case children node of [] \<Rightarrow> None | c # _ \<Rightarrow> Some c)
      in case hd0 of
           None \<Rightarrow> (opt, [])
         | Some h \<Rightarrow>
           (case st of
              None \<Rightarrow> (opt, [])
            | Some s \<Rightarrow>
              (let count = int (column h) - int (column s) in
               case opt of
                 Consistent \<Rightarrow> (Width count, [])
               | Width w \<Rightarrow>
                 (let diff = w - count in
                  if diff \<noteq> 0
                  then (let abs = nat \<bar>diff\<bar> in
                        (opt, [\<lparr>reason = (if diff > 0 then ''Add'' else ''Remove'') @ '' ''
                                         @ digits abs @ '' '' @ pluralize ''space'' abs
                                         @ '' between block quote and content'',
                                place = AtPoint h\<rparr>]))
                  else (opt, [])))))"

definition remarkLintBlockquoteIndentation :: "node \<Rightarrow> indent_option option \<Rightarrow> diag list" where
  "remarkLintBlockquoteIndentation tree options =
     (let opt = (case options of
                   None \<Rightarrow> Consistent
                 | Some Consistent \<Rightarrow> Consistent
                 | Some (Width w) \<Rightarrow> if w = 0 then Consistent else Width w)
      in snd (run blockquote_visitor opt (visit tree ''blockquote'')))"

section \<open>The duplicate rules\<close>

text \<open>
  \<open>toString(node)\<close> (mdast-util-to-string) is the node's \<open>value\<close> if it has one,
  else its non-empty \<open>alt\<close>, else the texts of its children joined.
  \<open>toUpperCase()\<close> is the case mapping of the language, over all of Unicode:
  the two rules that call it take it as their argument \<open>upper\<close>, and what is
  proved of them holds for every such function. Its result holds no lower-case
  ASCII letter, so a key never meets a property that an empty JavaScript
  object inherits. \<open>toUpperCase_ascii\<close> is what it does to a text of ASCII
  characters, which is what the example documents hold.
\<close>

fun toString :: "node \<Rightarrow> string" where
  "toString (Node t p i v a d cs) =
     (case v of
        Some s \<Rightarrow> s
      | None \<Rightarrow>
        (case a of
           Some al \<Rightarrow> if al \<noteq> [] then al else concat (map toString cs)
         | None \<Rightarrow> concat (map toString cs)))"

definition upper_char :: "char \<Rightarrow> char" where
  "upper_char c =
     (if 97 \<le> (of_char c :: nat) \<and> (of_char c :: nat) \<le> 122
      then char_of ((of_char c :: nat) - 32) else c)"

definition toUpperCase_ascii :: "string \<Rightarrow> string" where
  "toUpperCase_ascii s = map upper_char s"

subsection \<open>no-duplicate-definitions and no-duplicate-headings\<close>

text \<open>The state is the \<open>Map\<close> from a key to the stringified start of the node last seen with it.\<close>

definition duplicate_definitions_visitor ::
  "(string \<rightharpoonup> string) \<Rightarrow> node \<Rightarrow> (string \<rightharpoonup> string) \<times> diag list" where
  "duplicate_definitions_visitor m node =
     (let pl = position_of node; st = pointStart node in
      if (ntype node = ''definition'' \<or> ntype node = ''footnoteDefinition'')
         \<and> pl \<noteq> None \<and> st \<noteq> None
      then (let identifier = ident node; duplicate = m identifier in
            (m(identifier \<mapsto> stringifyPosition (the st)),
             if truthy duplicate
             then [\<lparr>reason = ''Do not use definitions with the same identifier (''
                              @ the duplicate @ '')'',
                     place = AtPosition (the pl)\<rparr>]
             else []))
      else (m, []))"

definition remarkLintNoDuplicateDefinitions :: "node \<Rightarrow> diag list" where
  "remarkLintNoDuplicateDefinitions tree =
     snd (run duplicate_definitions_visitor Map.empty (visit_all tree))"

definition duplicate_headings_visitor ::
  "(string \<Rightarrow> string) \<Rightarrow> (string \<rightharpoonup> string) \<Rightarrow> node
     \<Rightarrow> (string \<rightharpoonup> string) \<times> diag list" where
  "duplicate_headings_visitor upper m node =
     (let pl = position_of node; st = pointStart node in
      if pl \<noteq> None \<and> st \<noteq> None
      then (let v = upper (toString node); duplicate = m v in
            (m(v \<mapsto> stringifyPosition (the st)),
             if truthy duplicate
             then [\<lparr>reason = ''Do not use headings with similar content (''
                              @ the duplicate @ '')'',
                     place = AtNode node\<rparr>]
             else []))
      else (m, []))"

definition remarkLintNoDuplicateHeadings :: "(string \<Rightarrow> string) \<Rightarrow> node \<Rightarrow> diag list" where
  "remarkLintNoDuplicateHeadings upper tree =
     snd (run (duplicate_headings_visitor upper) Map.empty (visit tree ''heading''))"

text \<open>
  \<open>emitted f s pre xs\<close>: the diagnostics for the nodes \<open>xs\<close> when they are visited
  right after the nodes \<open>pre\<close>, in a run that started in state \<open>s\<close>.
\<close>

definition emitted :: "('s \<Rightarrow> 'a \<Rightarrow> 's \<times> diag list) \<Rightarrow> 's \<Rightarrow> 'a list \<Rightarrow> 'a list \<Rightarrow> diag list" where
  "emitted f s pre xs = snd (run f (fst (run f s pre)) xs)"

subsection \<open>no-duplicate-headings-in-section\<close>

text \<open>
  The state is the array \<open>stack\<close> of scopes, one per depth; a scope maps a key
  to the heading last seen with it. \<open>stack[index] || (stack[index] = {})\<close> reads
  a hole, or an index past the end, as a new empty scope: \<open>pad\<close> fills the
  array up to the index. For the depth 0 the index is -1, which is no element
  of the array, and \<open>stack.slice(0, 0)\<close> is empty.
\<close>

definition stringifyPosition_legacy :: "legacy_point \<Rightarrow> string" where
  "stringifyPosition_legacy lp =
     digits (index_or_1 (js_num (lline lp))) @ '':'' @ digits (index_or_1 (js_num (lcolumn lp)))"

definition section_reason :: string where
  "section_reason = ''Do not use headings with similar content per section''"

type_synonym scope = "string \<rightharpoonup> node"

definition pad :: "scope list \<Rightarrow> nat \<Rightarrow> scope list" where
  "pad stack n = stack @ replicate (n - length stack) Map.empty"

definition section_visitor ::
  "(string \<Rightarrow> string) \<Rightarrow> scope list \<Rightarrow> node \<Rightarrow> scope list \<times> diag list" where
  "section_visitor upper stack node =
     (let d = depth node; v = upper (toString node) in
      if d = 0 then ([], [])
      else (let stack1 = pad stack d;
                scope = stack1 ! (d - 1);
                duplicate = scope v;
                msgs = (if \<not> generated node \<and> duplicate \<noteq> None
                        then [\<lparr>reason = section_reason @ '' (''
                                         @ stringifyPosition_legacy (pointStart_legacy duplicate)
                                         @ '')'',
                                place = AtNode node\<rparr>]
                        else []);
                stack2 = stack1[d - 1 := scope(v \<mapsto> node)]
            in (take d stack2, msgs)))"

definition noDuplicateHeadingsInSection :: "(string \<Rightarrow> string) \<Rightarrow> node \<Rightarrow> diag list" where
  "noDuplicateHeadingsInSection upper tree =
     snd (run (section_visitor upper) [] (visit tree ''heading''))"

section \<open>final-definition\<close>

text \<open>
  The rule calls \<open>visit(tree, visitor, true)\<close>: the visit in reverse, which
  takes the children of every node from the last to the first (a node still
  before its children). The state is \<open>last\<close>, 0 until a line is remembered.
  The test \<open>/^\s*<!--/\<close> holds of a text that starts with any number of
  characters of the class \<open>\s\<close> followed by \<open><!--\<close>. The class is the white
  space and line terminators of the language, over all of Unicode: the rule
  takes it as its argument \<open>space\<close>, and what is proved of the rule holds for
  every such class. \<open>white_space\<close> is the class on the code units below 256
  (tab, line feed, vertical tab, form feed, carriage return, space and the
  no-break space), for the example documents. A node without a
  \<open>value\<close> is tested as the text \<open>undefined\<close>, which fails.
\<close>

fun visit_all_reverse :: "node \<Rightarrow> node list" where
  "visit_all_reverse (Node t p i v a d cs) =
     Node t p i v a d cs # concat (map visit_all_reverse (rev cs))"

definition white_space :: "char \<Rightarrow> bool" where
  "white_space c =
     (c \<in> set [CHR 0x09, CHR 0x0A, CHR 0x0B, CHR 0x0C, CHR 0x0D, CHR 0x20, CHR 0xA0])"

definition html_comment :: "(char \<Rightarrow> bool) \<Rightarrow> string option \<Rightarrow> bool" where
  "html_comment space v =
     (case v of
        None \<Rightarrow> False
      | Some s \<Rightarrow>
        list_ex (\<lambda>k. list_all space (take k s) \<and> take 4 (drop k s) = ''<!--'')
          [0..<Suc (length s)])"

definition final_definition_visitor ::
  "(char \<Rightarrow> bool) \<Rightarrow> nat \<Rightarrow> node \<Rightarrow> nat \<times> diag list" where
  "final_definition_visitor space last_line node =
     (case pointStart node of
        None \<Rightarrow> (last_line, [])
      | Some st \<Rightarrow>
        if ntype node = ''root'' \<or> (ntype node = ''html'' \<and> html_comment space (nvalue node))
        then (last_line, [])
        else (let ln = line st in
              if ntype node = ''definition''
              then (last_line,
                    if last_line \<noteq> 0 \<and> last_line > ln
                    then [\<lparr>reason = ''Move definitions to the end of the file (after the node at line `''
                                     @ digits last_line @ ''`)'',
                            place = AtNode node\<rparr>]
                    else [])
              else if last_line = 0 then (ln, [])
              else (last_line, [])))"

definition remarkLintFinalDefinition :: "(char \<Rightarrow> bool) \<Rightarrow> node \<Rightarrow> diag list" where
  "remarkLintFinalDefinition space tree =
     snd (run (final_definition_visitor space) 0 (visit_all_reverse tree))"

section \<open>no-missing-blank-lines\<close>

text \<open>
  The visitor receives the node with its index in its parent and the parent,
  none of them for the root: \<open>visit_parents\<close> is the visit of all nodes that
  carries them. \<open>nth_opt\<close> is \<open>children[index + 1]\<close>, undefined past the end.
\<close>

fun visit_parents :: "(nat \<times> node) option \<Rightarrow> node \<Rightarrow> (node \<times> (nat \<times> node) option) list"
  and visit_children :: "node \<Rightarrow> nat \<Rightarrow> node list \<Rightarrow> (node \<times> (nat \<times> node) option) list" where
  "visit_parents ctx (Node t p i v a d cs) =
     (Node t p i v a d cs, ctx) # visit_children (Node t p i v a d cs) 0 cs"
| "visit_children par k [] = []"
| "visit_children par k (c # cs) =
     visit_parents (Some (k, par)) c @ visit_children par (Suc k) cs"

definition nth_opt :: "'a list \<Rightarrow> nat \<Rightarrow> 'a option" where
  "nth_opt xs i = (if i < length xs then Some (xs ! i) else None)"

definition types :: "string list" where
  "types = [''paragraph'', ''heading'', ''thematicBreak'', ''blockquote'', ''list'', ''table'',
            ''html'', ''code'', ''yaml'']"

record blank_lines_options =
  exceptTightLists :: "bool option"

definition missing_blank_lines_visitor ::
  "bool \<Rightarrow> node \<times> (nat \<times> node) option \<Rightarrow> diag list" where
  "missing_blank_lines_visitor except visited =
     (case visited of (node, ctx) \<Rightarrow>
        (case ctx of
           None \<Rightarrow> []
         | Some (index, parent) \<Rightarrow>
           (case pointEnd node of
              None \<Rightarrow> []
            | Some e \<Rightarrow>
              if \<not> except \<or> ntype parent \<noteq> ''listItem''
              then (let nxt = nth_opt (children parent) (index + 1);
                        nextPoint = pointStart_opt nxt
                    in case nxt of
                         None \<Rightarrow> []
                       | Some n \<Rightarrow>
                         (case nextPoint of
                            None \<Rightarrow> []
                          | Some np \<Rightarrow>
                            if ntype n \<in> set types \<and> line np = line e + 1
                            then [\<lparr>reason = ''Missing blank line before block node'',
                                    place = AtNode n\<rparr>]
                            else []))
              else [])))"

definition remarkLintNoMissingBlankLines :: "node \<Rightarrow> blank_lines_options option \<Rightarrow> diag list" where
  "remarkLintNoMissingBlankLines tree options =
     (let except = (case options of
                      None \<Rightarrow> False
                    | Some os \<Rightarrow> (case exceptTightLists os of None \<Rightarrow> False | Some b \<Rightarrow> b))
      in concat (map (missing_blank_lines_visitor except) (visit_parents None tree)))"

section \<open>list-item-spacing\<close>

text \<open>
  The rule is written on the earlier position interface: \<open>pointStart(x).line\<close>
  is null for a node without a position, and null counts as 0 in a
  subtraction. \<open>children[0]\<close> and \<open>children[children.length - 1]\<close> are
  undefined for a node without children. The two loops over the items are the
  recursions \<open>blank_line_after\<close> and \<open>spacing_messages\<close>, which carry the
  previous item; the first loop of the visitor, which stops at the first item
  that \<open>infer\<close> accepts, is \<open>list_ex\<close>.
\<close>

definition line_num :: "legacy_point \<Rightarrow> int" where
  "line_num p = int (js_num (lline p))"

definition first_opt :: "'a list \<Rightarrow> 'a option" where
  "first_opt xs = (case xs of [] \<Rightarrow> None | x # _ \<Rightarrow> Some x)"

definition last_opt :: "'a list \<Rightarrow> 'a option" where
  "last_opt xs = (if xs = [] then None else Some (last xs))"

definition reasonLoose :: string where
  "reasonLoose = ''Missing new line after list item''"

definition reasonTight :: string where
  "reasonTight = ''Extraneous new line after list item''"

fun blank_line_after :: "node \<Rightarrow> node list \<Rightarrow> bool" where
  "blank_line_after child [] = False"
| "blank_line_after child (nxt # rest) =
     (if line_num (pointStart_legacy (Some nxt)) - line_num (pointEnd_legacy (Some child)) > 1
      then True
      else blank_line_after nxt rest)"

definition inferBlankLine :: "node \<Rightarrow> bool" where
  "inferBlankLine node =
     (case children node of [] \<Rightarrow> False | child # rest \<Rightarrow> blank_line_after child rest)"

definition inferMultiline :: "node \<Rightarrow> bool" where
  "inferMultiline node =
     (line_num (pointEnd_legacy (last_opt (children node)))
        - line_num (pointStart_legacy (first_opt (children node))) > 0)"

record spacing_options =
  checkBlanks :: "bool option"

fun spacing_messages :: "bool \<Rightarrow> node \<Rightarrow> node list \<Rightarrow> diag list" where
  "spacing_messages tight child [] = []"
| "spacing_messages tight child (nxt # rest) =
     (if (line_num (pointStart_legacy (Some nxt)) - line_num (pointEnd_legacy (Some child)) < 2)
         \<noteq> tight
      then [\<lparr>reason = (if tight then reasonTight else reasonLoose),
              place = AtRange (pointEnd_legacy (Some child)) (pointStart_legacy (Some nxt))\<rparr>]
      else [])
     @ spacing_messages tight nxt rest"

definition list_item_spacing_visitor :: "(node \<Rightarrow> bool) \<Rightarrow> node \<Rightarrow> diag list" where
  "list_item_spacing_visitor infer node =
     (if \<not> generated node
      then (let tight = \<not> list_ex infer (children node) in
            case children node of
              [] \<Rightarrow> []
            | child # rest \<Rightarrow> spacing_messages tight child rest)
      else [])"

definition listItemSpacing :: "node \<Rightarrow> spacing_options option \<Rightarrow> diag list" where
  "listItemSpacing tree opt =
     (let infer = (if (case opt of
                         None \<Rightarrow> False
                       | Some os \<Rightarrow> (case checkBlanks os of None \<Rightarrow> False | Some b \<Rightarrow> b))
                   then inferBlankLine else inferMultiline)
      in concat (map (list_item_spacing_visitor infer) (visit tree ''list'')))"

section \<open>no-heading-punctuation\<close>

text \<open>
  The option is the inside of a character class,
  \<open>new RegExp('[' + (options || '!,\\.:;?') + ']')\<close>. The model reads it as the
  set of its characters, which is what the class is for an option without
  characters that are special inside a class; the default class holds the six
  characters \<open>!,.:;?\<close>.
\<close>

definition heading_punctuation_default :: string where
  "heading_punctuation_default = ''!,.:;?''"

definition heading_punctuation_visitor :: "string \<Rightarrow> node \<Rightarrow> diag list" where
  "heading_punctuation_visitor chars node =
     (case position_of node of
        None \<Rightarrow> []
      | Some pl \<Rightarrow>
        (let v = toString node;
             tail = charAt v (int (length v) - 1)
         in if \<exists>c \<in> set tail. c \<in> set chars
            then [\<lparr>reason = ''Don'' @ [CHR 0xE2, CHR 0x80, CHR 0x99] @ ''t add a trailing `''
                             @ tail @ ''` to headings'',
                    place = AtPosition pl\<rparr>]
            else []))"

definition remarkLintNoHeadingPunctuation :: "node \<Rightarrow> string option \<Rightarrow> diag list" where
  "remarkLintNoHeadingPunctuation tree options =
     (let chars = (case options of
                     None \<Rightarrow> heading_punctuation_default
                   | Some x \<Rightarrow> if x = [] then heading_punctuation_default else x)
      in concat (map (heading_punctuation_visitor chars) (visit tree ''heading'')))"

section \<open>Observations\<close>

text \<open>
  What a consistency rule observes at a node it checks: the source text of a
  thematic break between its two offsets; the first child's start point and the
  indent of a block quote. The observations of a run are those of the visited
  nodes, in the order of the visit.
\<close>

definition rule_of :: "string \<Rightarrow> node \<Rightarrow> string option" where
  "rule_of file n =
     (case (pointStart n, pointEnd n) of
        (Some s, Some e) \<Rightarrow>
          (case (offset s, offset e) of
             (Some a, Some b) \<Rightarrow> Some (slice file a b)
           | _ \<Rightarrow> None)
      | _ \<Rightarrow> None)"

definition observations :: "('a \<Rightarrow> 'b option) \<Rightarrow> 'a list \<Rightarrow> ('a \<times> 'b) list" where
  "observations f ns = List.map_filter (\<lambda>n. map_option (Pair n) (f n)) ns"

definition rule_diag :: "string \<Rightarrow> node \<Rightarrow> diag" where
  "rule_diag expected n = \<lparr>reason = ''Rules should use `'' @ expected @ ''`'', place = AtNode n\<rparr>"

definition indent_of :: "node \<Rightarrow> (point \<times> int) option" where
  "indent_of n =
     (case (pointStart_opt (case children n of [] \<Rightarrow> None | c # _ \<Rightarrow> Some c), pointStart n) of
        (Some h, Some s) \<Rightarrow> Some (h, int (column h) - int (column s))
      | _ \<Rightarrow> None)"

definition indent_diag :: "int \<Rightarrow> point \<times> int \<Rightarrow> diag" where
  "indent_diag expected hc =
     (case hc of (h, c) \<Rightarrow>
        \<lparr>reason = (if expected > c then ''Add'' else ''Remove'') @ '' ''
                  @ digits (nat \<bar>expected - c\<bar>) @ '' ''
                  @ (if \<bar>expected - c\<bar> = 1 then ''space'' else ''spaces'')
                  @ '' between block quote and content'',
         place = AtPoint h\<rparr>)"

subsection \<open>Duplicates\<close>

text \<open>
  The nodes the duplicate rules check and their keys; the nearest node before
  the end of a list that satisfies a predicate; what the \<open>Map\<close> of a duplicate
  rule holds for a key after a list of nodes; the scope of a depth in the stack
  of the section rule, and the heading a section holds for a key (the visited
  headings given latest first).
\<close>

definition is_definition :: "node \<Rightarrow> bool" where
  "is_definition n =
     ((ntype n = ''definition'' \<or> ntype n = ''footnoteDefinition'') \<and> position_of n \<noteq> None)"

definition nearest_before :: "('a \<Rightarrow> bool) \<Rightarrow> 'a list \<Rightarrow> 'a option" where
  "nearest_before P pre = find P (rev pre)"

definition stored :: "(node \<Rightarrow> bool) \<Rightarrow> (node \<Rightarrow> string) \<Rightarrow> node list \<Rightarrow> string \<Rightarrow> string option" where
  "stored q key pre k =
     map_option (\<lambda>a. stringifyPosition (the (pointStart a)))
       (nearest_before (\<lambda>x. q x \<and> key x = k) pre)"

definition is_heading :: "node \<Rightarrow> bool" where
  "is_heading n = (position_of n \<noteq> None)"

definition heading_key :: "(string \<Rightarrow> string) \<Rightarrow> node \<Rightarrow> string" where
  "heading_key upper n = upper (toString n)"

definition scope_at :: "scope list \<Rightarrow> nat \<Rightarrow> scope" where
  "scope_at stack d = (if 1 \<le> d \<and> d \<le> length stack then stack ! (d - 1) else Map.empty)"

fun section_entry :: "(string \<Rightarrow> string) \<Rightarrow> nat \<Rightarrow> string \<Rightarrow> node list \<Rightarrow> node option" where
  "section_entry upper d k [] = None"
| "section_entry upper d k (h # earlier) =
     (if depth h < d then None
      else if depth h = d \<and> heading_key upper h = k then Some h
      else section_entry upper d k earlier)"

subsection \<open>Content nodes\<close>

text \<open>
  A content node for final-definition: a node with a start point that is not
  the root, not a definition and not an HTML comment.
\<close>

definition is_content :: "(char \<Rightarrow> bool) \<Rightarrow> node \<Rightarrow> bool" where
  "is_content space n =
     (pointStart n \<noteq> None \<and> ntype n \<noteq> ''root'' \<and> ntype n \<noteq> ''definition''
      \<and> \<not> (ntype n = ''html'' \<and> html_comment space (nvalue n)))"

definition start_line :: "node \<Rightarrow> nat" where
  "start_line n = (case pointStart n of None \<Rightarrow> 0 | Some st \<Rightarrow> line st)"

section \<open>Example documents\<close>

definition thematicBreak_at :: "nat \<Rightarrow> nat \<Rightarrow> nat \<Rightarrow> node" where
  "thematicBreak_at l a b =
     Node ''thematicBreak''
       (Some \<lparr>start = \<lparr>line = l, column = 1, offset = Some a\<rparr>,
              end_pt = \<lparr>line = l, column = 1 + (b - a), offset = Some b\<rparr>\<rparr>)
       [] None None 0 []"

definition root_of :: "node list \<Rightarrow> node" where
  "root_of cs = Node ''root'' None [] None None 0 cs"

definition rules_source :: string where
  "rules_source = ''***'' @ [CHR 0x0A, CHR 0x0A] @ ''* * *'' @ [CHR 0x0A, CHR 0x0A] @ ''***''"

definition rules_doc :: node where
  "rules_doc = root_of [thematicBreak_at 1 0 3, thematicBreak_at 3 5 10, thematicBreak_at 5 12 15]"

definition paragraph_at :: "nat \<Rightarrow> nat \<Rightarrow> nat \<Rightarrow> node" where
  "paragraph_at l c1 c2 =
     Node ''paragraph''
       (Some \<lparr>start = \<lparr>line = l, column = c1, offset = None\<rparr>,
              end_pt = \<lparr>line = l, column = c2, offset = None\<rparr>\<rparr>)
       [] None None 0 []"

definition blockquote_at :: "nat \<Rightarrow> nat \<Rightarrow> nat \<Rightarrow> node" where
  "blockquote_at l c1 c2 =
     Node ''blockquote''
       (Some \<lparr>start = \<lparr>line = l, column = 1, offset = None\<rparr>,
              end_pt = \<lparr>line = l, column = c2, offset = None\<rparr>\<rparr>)
       [] None None 0 [paragraph_at l c1 c2]"

definition quotes_doc :: node where
  "quotes_doc = root_of [blockquote_at 1 4 9, paragraph_at 3 1 11, blockquote_at 5 5 10,
                         paragraph_at 7 1 11, blockquote_at 9 3 8]"

definition pile_of_poo :: string where
  "pile_of_poo = [CHR 0xF0, CHR 0x9F, CHR 0x92, CHR 0xA9]"

definition same_rules_source :: string where
  "same_rules_source = ''***'' @ [CHR 0x0A, CHR 0x0A] @ ''***'' @ [CHR 0x0A, CHR 0x0A] @ ''***''"

definition same_rules_doc :: node where
  "same_rules_doc = root_of [thematicBreak_at 1 0 3, thematicBreak_at 3 5 8, thematicBreak_at 5 10 13]"

definition span :: "nat \<Rightarrow> nat \<Rightarrow> nat \<Rightarrow> nat \<Rightarrow> position" where
  "span l1 c1 l2 c2 =
     \<lparr>start = \<lparr>line = l1, column = c1, offset = None\<rparr>,
      end_pt = \<lparr>line = l2, column = c2, offset = None\<rparr>\<rparr>"

definition text_node :: "string \<Rightarrow> nat \<Rightarrow> nat \<Rightarrow> nat \<Rightarrow> node" where
  "text_node s l c1 c2 = Node ''text'' (Some (span l c1 l c2)) [] (Some s) None 0 []"

definition heading_node :: "nat \<Rightarrow> nat \<Rightarrow> nat \<Rightarrow> node list \<Rightarrow> node" where
  "heading_node d l c2 cs = Node ''heading'' (Some (span l 1 l c2)) [] None None d cs"

definition definition_node :: "string \<Rightarrow> nat \<Rightarrow> nat \<Rightarrow> node" where
  "definition_node i l c2 = Node ''definition'' (Some (span l 1 l c2)) i None None 0 []"

definition foo1 :: node where
  "foo1 = heading_node 1 1 6 [text_node ''Foo'' 1 3 6]"

definition foo2 :: node where
  "foo2 = heading_node 2 3 7 [text_node ''Foo'' 3 4 7]"

definition foo3 :: node where
  "foo3 = heading_node 2 5 29
            [Node ''link'' (Some (span 5 4 5 29)) [] None None 0 [text_node ''Foo'' 5 5 8]]"

definition headings_doc :: node where
  "headings_doc = root_of [foo1, foo2, foo3]"

definition alpha :: node where
  "alpha = heading_node 2 1 9 [text_node ''Alpha'' 1 4 9]"

definition bravo1 :: node where
  "bravo1 = heading_node 3 3 10 [text_node ''Bravo'' 3 5 10]"

definition charlie :: node where
  "charlie = heading_node 2 5 11 [text_node ''Charlie'' 5 4 11]"

definition bravo2 :: node where
  "bravo2 = heading_node 3 7 10 [text_node ''Bravo'' 7 5 10]"

definition foo_def1 :: node where
  "foo_def1 = definition_node ''foo'' 1 11"

definition baz_def :: node where
  "baz_def = definition_node ''baz'' 2 11"

definition foo_def3 :: node where
  "foo_def3 = definition_node ''foo'' 3 11"

definition definitions_doc :: node where
  "definitions_doc = root_of [foo_def1, baz_def, foo_def3]"

definition delta :: node where
  "delta = heading_node 3 9 10 [text_node ''Delta'' 9 5 10]"

definition bravo3 :: node where
  "bravo3 = heading_node 4 11 11 [text_node ''Bravo'' 11 6 11]"

definition echo :: node where
  "echo = heading_node 4 13 10 [text_node ''Echo'' 13 6 10]"

definition bravo4 :: node where
  "bravo4 = heading_node 5 15 12 [text_node ''Bravo'' 15 7 12]"

definition sections_doc :: node where
  "sections_doc = root_of [alpha, bravo1, charlie, bravo2, delta, bravo3, echo, bravo4]"

definition alpha1 :: node where
  "alpha1 = heading_node 1 1 8 [text_node ''Alpha'' 1 3 8]"

definition bravo_a :: node where
  "bravo_a = heading_node 4 3 11 [text_node ''Bravo'' 3 6 11]"

definition charlie6 :: node where
  "charlie6 = heading_node 6 5 15 [text_node ''Charlie'' 5 8 15]"

definition bravo_b :: node where
  "bravo_b = heading_node 4 7 11 [text_node ''Bravo'' 7 6 11]"

definition delta6 :: node where
  "delta6 = heading_node 6 9 13 [text_node ''Delta'' 9 8 13]"

definition increment_doc :: node where
  "increment_doc = root_of [alpha1, bravo_a, charlie6, bravo_b, delta6]"

definition foxtrot :: node where
  "foxtrot = heading_node 2 1 11 [text_node ''Foxtrot'' 1 4 11]"

definition golf1 :: node where
  "golf1 = heading_node 3 3 9 [text_node ''Golf'' 3 5 9]"

definition golf2 :: node where
  "golf2 = heading_node 3 5 9 [text_node ''Golf'' 5 5 9]"

definition golf_doc :: node where
  "golf_doc = root_of [foxtrot, golf1, golf2]"

definition golf_generated :: node where
  "golf_generated =
     Node ''heading'' None [] None None 3 [Node ''text'' None [] (Some ''Golf'') None 0 []]"

definition generated_golf_doc :: node where
  "generated_golf_doc = root_of [foxtrot, golf1, golf_generated]"

definition paragraph_node :: "string \<Rightarrow> nat \<Rightarrow> nat \<Rightarrow> node" where
  "paragraph_node s l c2 =
     Node ''paragraph'' (Some (span l 1 l c2)) [] None None 0 [text_node s l 1 c2]"

definition example_definition :: node where
  "example_definition = definition_node ''example'' 3 47"

definition definition_doc :: node where
  "definition_doc =
     root_of [paragraph_node ''Paragraph.'' 1 11, example_definition,
              paragraph_node ''Another paragraph.'' 5 19]"

definition html_node :: "string \<Rightarrow> nat \<Rightarrow> nat \<Rightarrow> node" where
  "html_node s l c2 = Node ''html'' (Some (span l 1 l c2)) [] (Some s) None 0 []"

definition example_1 :: node where
  "example_1 = definition_node ''example-1'' 3 37"

definition example_2 :: node where
  "example_2 = definition_node ''example-2'' 7 37"

definition comment_node :: node where
  "comment_node = html_node ''<!-- Comments are fine between and after definitions -->'' 5 57"

definition markup_node :: node where
  "markup_node = html_node ''<div>Markup counts as content</div>'' 5 36"

definition comments_doc :: node where
  "comments_doc = root_of [paragraph_node ''Paragraph.'' 1 11, example_1, comment_node, example_2]"

definition markup_doc :: node where
  "markup_doc = root_of [paragraph_node ''Paragraph.'' 1 11, example_1, markup_node, example_2]"

definition leaf :: "string \<Rightarrow> position \<Rightarrow> node" where
  "leaf t pos = Node t (Some pos) [] None None 0 []"

definition branch :: "string \<Rightarrow> position \<Rightarrow> node list \<Rightarrow> node" where
  "branch t pos cs = Node t (Some pos) [] None None 0 cs"

definition inner_list :: node where
  "inner_list =
     branch ''list'' (span 5 3 5 10)
       [branch ''listItem'' (span 5 3 5 10) [leaf ''paragraph'' (span 5 5 5 10)]]"

definition outer_item :: node where
  "outer_item = branch ''listItem'' (span 4 1 5 10) [leaf ''paragraph'' (span 4 3 4 12), inner_list]"

definition blank_lines_doc :: node where
  "blank_lines_doc =
     root_of [leaf ''heading'' (span 1 1 1 6), leaf ''heading'' (span 2 1 2 7),
              branch ''list'' (span 4 1 5 10) [outer_item],
              leaf ''paragraph'' (span 7 1 7 11)]"

definition generated_item :: node where
  "generated_item = Node ''listItem'' None [] None None 0 []"

definition third_line_item :: node where
  "third_line_item = branch ''listItem'' (span 3 1 3 4) [leaf ''paragraph'' (span 3 3 3 4)]"

definition grown_list :: node where
  "grown_list = branch ''list'' (span 3 1 3 4) [generated_item, third_line_item]"

definition sentinel_source :: string where
  "sentinel_source = ''consistent'' @ [CHR 0x0A] @ ''***'' @ [CHR 0x0A] @ ''---''"

definition sentinel_doc :: node where
  "sentinel_doc = root_of [thematicBreak_at 1 0 10, thematicBreak_at 2 11 14, thematicBreak_at 3 15 18]"

section \<open>Properties\<close>

subsection \<open>Runs of the consistency rules\<close>

lemma observations_Nil [simp]: "observations f [] = []"
  by (simp add: observations_def map_filter_simps)

lemma observations_Cons:
  "observations f (n # ns) = (case f n of None \<Rightarrow> observations f ns | Some r \<Rightarrow> (n, r) # observations f ns)"
  by (simp add: observations_def map_filter_simps split: option.splits)

lemma rule_style_visitor_skip:
  "rule_of file n = None \<Longrightarrow> rule_style_visitor file opt n = (opt, [])"
  by (auto simp: rule_of_def rule_style_visitor_def split: option.splits)

lemma rule_style_visitor_obs:
  "rule_of file n = Some r \<Longrightarrow>
   rule_style_visitor file opt n =
     (if opt = ''consistent'' then (r, [])
      else if r \<noteq> opt then (opt, [rule_diag opt n]) else (opt, []))"
  by (auto simp: rule_of_def rule_style_visitor_def rule_diag_def Let_def split: option.splits)

lemma rule_style_run_concrete:
  "opt \<noteq> ''consistent'' \<Longrightarrow>
   run (rule_style_visitor file) opt ns =
     (opt, map (\<lambda>(n, r). rule_diag opt n) (filter (\<lambda>(n, r). r \<noteq> opt) (observations (rule_of file) ns)))"
proof (induction ns)
  case Nil
  then show ?case by simp
next
  case (Cons n ns)
  show ?case
  proof (cases "rule_of file n")
    case None
    with Cons show ?thesis
      by (simp add: rule_style_visitor_skip observations_Cons)
  next
    case (Some r)
    with Cons show ?thesis
      by (simp add: rule_style_visitor_obs observations_Cons)
  qed
qed

lemma rule_style_run_consistent_none:
  "observations (rule_of file) ns = [] \<Longrightarrow>
   run (rule_style_visitor file) ''consistent'' ns = (''consistent'', [])"
proof (induction ns)
  case Nil
  then show ?case by simp
next
  case (Cons n ns)
  then show ?case
    by (cases "rule_of file n") (simp_all add: observations_Cons rule_style_visitor_skip)
qed

lemma rule_style_run_consistent_first:
  "observations (rule_of file) ns = (n1, r1) # rest \<Longrightarrow> r1 \<noteq> ''consistent'' \<Longrightarrow>
   run (rule_style_visitor file) ''consistent'' ns =
     (r1, map (\<lambda>(n, r). rule_diag r1 n) (filter (\<lambda>(n, r). r \<noteq> r1) rest))"
proof (induction ns)
  case Nil
  then show ?case by simp
next
  case (Cons n ns)
  show ?case
  proof (cases "rule_of file n")
    case None
    with Cons show ?thesis
      by (simp add: observations_Cons rule_style_visitor_skip)
  next
    case (Some r)
    with Cons.prems have eq: "n1 = n" "r1 = r" "rest = observations (rule_of file) ns"
      by (simp_all add: observations_Cons)
    with Cons.prems Some show ?thesis
      by (simp add: rule_style_visitor_obs rule_style_run_concrete)
  qed
qed

lemma rule_style_run_same:
  "\<forall>n \<in> set ns. \<forall>r. rule_of file n = Some r \<longrightarrow> r = v \<Longrightarrow>
   opt = ''consistent'' \<or> opt = v \<Longrightarrow>
   snd (run (rule_style_visitor file) opt ns) = []"
proof (induction ns arbitrary: opt)
  case Nil
  then show ?case by simp
next
  case (Cons n ns)
  show ?case
  proof (cases "rule_of file n")
    case None
    with Cons show ?thesis
      by (simp add: rule_style_visitor_skip split: prod.splits)
  next
    case (Some r)
    with Cons.prems have "r = v" by simp
    with Cons Some show ?thesis
      by (auto simp: rule_style_visitor_obs split: prod.splits)
  qed
qed

lemma blockquote_visitor_skip:
  "indent_of n = None \<Longrightarrow> blockquote_visitor opt n = (opt, [])"
  by (auto simp: indent_of_def blockquote_visitor_def Let_def split: option.splits)

lemma blockquote_visitor_obs:
  "indent_of n = Some (h, c) \<Longrightarrow>
   blockquote_visitor opt n =
     (case opt of
        Consistent \<Rightarrow> (Width c, [])
      | Width w \<Rightarrow> if c \<noteq> w then (opt, [indent_diag w (h, c)]) else (opt, []))"
  by (auto simp: indent_of_def blockquote_visitor_def indent_diag_def pluralize_def Let_def
      split: option.splits indent_option.splits)

lemma blockquote_run_concrete:
  "run blockquote_visitor (Width w) ns =
     (Width w, map (\<lambda>(n, hc). indent_diag w hc)
                (filter (\<lambda>(n, hc). snd hc \<noteq> w) (observations indent_of ns)))"
proof (induction ns)
  case Nil
  then show ?case by simp
next
  case (Cons n ns)
  show ?case
  proof (cases "indent_of n")
    case None
    with Cons show ?thesis
      by (simp add: blockquote_visitor_skip observations_Cons)
  next
    case (Some hc)
    obtain h c where "hc = (h, c)" by (cases hc)
    with Cons Some show ?thesis
      by (simp add: blockquote_visitor_obs observations_Cons)
  qed
qed

lemma blockquote_run_consistent_none:
  "observations indent_of ns = [] \<Longrightarrow> run blockquote_visitor Consistent ns = (Consistent, [])"
proof (induction ns)
  case Nil
  then show ?case by simp
next
  case (Cons n ns)
  then show ?case
    by (cases "indent_of n") (simp_all add: observations_Cons blockquote_visitor_skip)
qed

lemma blockquote_run_consistent_first:
  "observations indent_of ns = (n1, (h1, c1)) # rest \<Longrightarrow>
   run blockquote_visitor Consistent ns =
     (Width c1, map (\<lambda>(n, hc). indent_diag c1 hc) (filter (\<lambda>(n, hc). snd hc \<noteq> c1) rest))"
proof (induction ns)
  case Nil
  then show ?case by simp
next
  case (Cons n ns)
  show ?case
  proof (cases "indent_of n")
    case None
    with Cons show ?thesis
      by (simp add: observations_Cons blockquote_visitor_skip)
  next
    case (Some hc)
    with Cons.prems have eq: "n1 = n" "hc = (h1, c1)" "rest = observations indent_of ns"
      by (simp_all add: observations_Cons)
    with Some show ?thesis
      by (simp add: blockquote_visitor_obs blockquote_run_concrete)
  qed
qed

subsection \<open>The consistency rules\<close>

lemma visit_rules_doc: "visit rules_doc ''thematicBreak'' = [thematicBreak_at 1 0 3, thematicBreak_at 3 5 10, thematicBreak_at 5 12 15]"
  by (simp add: rules_doc_def root_of_def visit_def thematicBreak_at_def)

lemma obs_rules_doc: "observations (rule_of rules_source) (visit rules_doc ''thematicBreak'')
  = [(thematicBreak_at 1 0 3, ''***''), (thematicBreak_at 3 5 10, ''* * *''), (thematicBreak_at 5 12 15, ''***'')]"
  by (simp add: visit_rules_doc observations_Cons rule_of_def rules_source_def thematicBreak_at_def pointStart_def pointEnd_def valid_point_def slice_def)

text \<open>
  C1 (as amended). rule-style and blockquote-indentation, run over a tree
  whose observations are taken in the order of the visit.
  With a concrete preferred value configured (for rule-style a non-empty
  string of marker characters other than \<open>consistent\<close>, for
  blockquote-indentation a number other than 0), a diagnostic is emitted for
  exactly the observations that differ from it. With \<open>consistent\<close> (or no
  option) the first observation is adopted with no diagnostic for it, and a
  diagnostic is emitted for exactly the later observations that differ from
  the first one; for rule-style this needs the first observed text not to be
  the word \<open>consistent\<close> itself.
  The message of rule-style cites the expected value; the message of
  blockquote-indentation says how many spaces to add or to remove, which is
  the distance between the expected and the observed indent.
\<close>

theorem C1_consistency_inference:
  "(p \<noteq> [] \<and> p \<noteq> ''consistent'' \<and> set p \<subseteq> set ''-_* '' \<longrightarrow>
      remarkLintRuleStyle tree file (Some p) =
        Inr (map (\<lambda>(n, r). rule_diag p n)
               (filter (\<lambda>(n, r). r \<noteq> p)
                  (observations (rule_of file) (visit tree ''thematicBreak'')))))
   \<and> (opts = None \<or> opts = Some ''consistent'' \<longrightarrow>
        (observations (rule_of file) (visit tree ''thematicBreak'') = [] \<longrightarrow>
           remarkLintRuleStyle tree file opts = Inr [])
        \<and> (\<forall>n1 r1 rest.
             observations (rule_of file) (visit tree ''thematicBreak'') = (n1, r1) # rest
             \<and> r1 \<noteq> ''consistent'' \<longrightarrow>
               remarkLintRuleStyle tree file opts =
                 Inr (map (\<lambda>(n, r). rule_diag r1 n) (filter (\<lambda>(n, r). r \<noteq> r1) rest))))
   \<and> (w \<noteq> 0 \<longrightarrow>
        remarkLintBlockquoteIndentation tree (Some (Width w)) =
          map (\<lambda>(n, hc). indent_diag w hc)
            (filter (\<lambda>(n, hc). snd hc \<noteq> w) (observations indent_of (visit tree ''blockquote''))))
   \<and> (iopts = None \<or> iopts = Some Consistent \<longrightarrow>
        (observations indent_of (visit tree ''blockquote'') = [] \<longrightarrow>
           remarkLintBlockquoteIndentation tree iopts = [])
        \<and> (\<forall>n1 h1 c1 rest.
             observations indent_of (visit tree ''blockquote'') = (n1, (h1, c1)) # rest \<longrightarrow>
               remarkLintBlockquoteIndentation tree iopts =
                 map (\<lambda>(n, hc). indent_diag c1 hc) (filter (\<lambda>(n, hc). snd hc \<noteq> c1) rest)))"
proof (intro conjI impI allI)
  assume "p \<noteq> [] \<and> p \<noteq> ''consistent'' \<and> set p \<subseteq> set ''-_* ''"
  then have "p \<noteq> []" "p \<noteq> ''consistent''" "\<not> bad_style p"
    by (auto simp: bad_style_def)
  then show "remarkLintRuleStyle tree file (Some p) =
        Inr (map (\<lambda>(n, r). rule_diag p n)
               (filter (\<lambda>(n, r). r \<noteq> p)
                  (observations (rule_of file) (visit tree ''thematicBreak''))))"
    by (simp add: remarkLintRuleStyle_def rule_style_run_concrete)
next
  assume "opts = None \<or> opts = Some ''consistent''"
    and "observations (rule_of file) (visit tree ''thematicBreak'') = []"
  then show "remarkLintRuleStyle tree file opts = Inr []"
    by (auto simp: remarkLintRuleStyle_def rule_style_run_consistent_none)
next
  fix n1 r1 rest
  assume "opts = None \<or> opts = Some ''consistent''"
    and "observations (rule_of file) (visit tree ''thematicBreak'') = (n1, r1) # rest
         \<and> r1 \<noteq> ''consistent''"
  then show "remarkLintRuleStyle tree file opts =
      Inr (map (\<lambda>(n, r). rule_diag r1 n) (filter (\<lambda>(n, r). r \<noteq> r1) rest))"
    by (auto simp: remarkLintRuleStyle_def rule_style_run_consistent_first)
next
  assume "w \<noteq> 0"
  then show "remarkLintBlockquoteIndentation tree (Some (Width w)) =
          map (\<lambda>(n, hc). indent_diag w hc)
            (filter (\<lambda>(n, hc). snd hc \<noteq> w) (observations indent_of (visit tree ''blockquote'')))"
    by (simp add: remarkLintBlockquoteIndentation_def blockquote_run_concrete)
next
  assume "iopts = None \<or> iopts = Some Consistent"
    and "observations indent_of (visit tree ''blockquote'') = []"
  then show "remarkLintBlockquoteIndentation tree iopts = []"
    by (auto simp: remarkLintBlockquoteIndentation_def blockquote_run_consistent_none)
next
  fix n1 h1 c1 rest
  assume "iopts = None \<or> iopts = Some Consistent"
    and "observations indent_of (visit tree ''blockquote'') = (n1, (h1, c1)) # rest"
  then show "remarkLintBlockquoteIndentation tree iopts =
      map (\<lambda>(n, hc). indent_diag c1 hc) (filter (\<lambda>(n, hc). snd hc \<noteq> c1) rest)"
    by (auto simp: remarkLintBlockquoteIndentation_def blockquote_run_consistent_first)
qed

lemma visit_quotes_doc:
  "visit quotes_doc ''blockquote'' = [blockquote_at 1 4 9, blockquote_at 5 5 10, blockquote_at 9 3 8]"
  by (simp add: quotes_doc_def root_of_def visit_def blockquote_at_def paragraph_at_def)

lemma obs_quotes_doc:
  "observations indent_of (visit quotes_doc ''blockquote'') =
     [(blockquote_at 1 4 9, (\<lparr>line = 1, column = 4, offset = None\<rparr>, 3)),
      (blockquote_at 5 5 10, (\<lparr>line = 5, column = 5, offset = None\<rparr>, 4)),
      (blockquote_at 9 3 8, (\<lparr>line = 9, column = 3, offset = None\<rparr>, 2))]"
  by (simp add: visit_quotes_doc observations_Cons indent_of_def blockquote_at_def
      paragraph_at_def pointStart_opt_def pointStart_def valid_point_def)

lemma digits_small: "n < 10 \<Longrightarrow> digits n = [digit n]"
  by (simp add: digits.simps)

theorem C1_consistency_inference_witness:
  "remarkLintRuleStyle rules_doc rules_source (Some ''***'') =
     Inr [\<lparr>reason = ''Rules should use `***`'', place = AtNode (thematicBreak_at 3 5 10)\<rparr>]
   \<and> remarkLintRuleStyle rules_doc rules_source None =
     Inr [\<lparr>reason = ''Rules should use `***`'', place = AtNode (thematicBreak_at 3 5 10)\<rparr>]
   \<and> remarkLintRuleStyle quotes_doc rules_source None = Inr []
   \<and> remarkLintBlockquoteIndentation quotes_doc (Some (Width 4)) =
     [\<lparr>reason = ''Add 1 space between block quote and content'',
       place = AtPoint \<lparr>line = 1, column = 4, offset = None\<rparr>\<rparr>,
      \<lparr>reason = ''Add 2 spaces between block quote and content'',
       place = AtPoint \<lparr>line = 9, column = 3, offset = None\<rparr>\<rparr>]
   \<and> remarkLintBlockquoteIndentation quotes_doc None =
     [\<lparr>reason = ''Remove 1 space between block quote and content'',
       place = AtPoint \<lparr>line = 5, column = 5, offset = None\<rparr>\<rparr>,
      \<lparr>reason = ''Add 1 space between block quote and content'',
       place = AtPoint \<lparr>line = 9, column = 3, offset = None\<rparr>\<rparr>]
   \<and> remarkLintBlockquoteIndentation rules_doc None = []"
proof -
  note a = C1_consistency_inference [of "''***''" rules_doc rules_source None 4 None]
  note b = C1_consistency_inference [of "''***''" quotes_doc rules_source None 4 None]
  have obs_q: "observations (rule_of rules_source) (visit quotes_doc ''thematicBreak'') = []"
    by (simp add: quotes_doc_def root_of_def visit_def blockquote_at_def paragraph_at_def)
  have obs_r: "observations indent_of (visit rules_doc ''blockquote'') = []"
    by (simp add: rules_doc_def root_of_def visit_def thematicBreak_at_def)
  have 1: "remarkLintRuleStyle rules_doc rules_source (Some ''***'') =
     Inr [\<lparr>reason = ''Rules should use `***`'', place = AtNode (thematicBreak_at 3 5 10)\<rparr>]"
    using a by (simp add: obs_rules_doc rule_diag_def)
  have 2: "remarkLintRuleStyle rules_doc rules_source None =
     Inr [\<lparr>reason = ''Rules should use `***`'', place = AtNode (thematicBreak_at 3 5 10)\<rparr>]"
    using a by (simp add: obs_rules_doc rule_diag_def)
  have 3: "remarkLintRuleStyle quotes_doc rules_source None = Inr []"
    using b obs_q by simp
  have 4: "remarkLintBlockquoteIndentation quotes_doc (Some (Width 4)) =
     [\<lparr>reason = ''Add 1 space between block quote and content'',
       place = AtPoint \<lparr>line = 1, column = 4, offset = None\<rparr>\<rparr>,
      \<lparr>reason = ''Add 2 spaces between block quote and content'',
       place = AtPoint \<lparr>line = 9, column = 3, offset = None\<rparr>\<rparr>]"
    using b by (simp add: obs_quotes_doc indent_diag_def digits_small digit_def)
  have 5: "remarkLintBlockquoteIndentation quotes_doc None =
     [\<lparr>reason = ''Remove 1 space between block quote and content'',
       place = AtPoint \<lparr>line = 5, column = 5, offset = None\<rparr>\<rparr>,
      \<lparr>reason = ''Add 1 space between block quote and content'',
       place = AtPoint \<lparr>line = 9, column = 3, offset = None\<rparr>\<rparr>]"
    using b by (simp add: obs_quotes_doc indent_diag_def digits_small digit_def)
  have 6: "remarkLintBlockquoteIndentation rules_doc None = []"
    using a obs_r by simp
  from 1 2 3 4 5 6 show ?thesis by simp
qed

text \<open>
  The claim as first stated has every message cite the expected value. With
  an indent of 4 configured, the block quotes indented by 3 and by 2 are told
  to add 1 space and 2 spaces: neither message holds the expected 4.
  And with 0 configured the block quotes indented by 3, 4 and 2 are not all
  reported: the first is adopted, and only the second and the third are.
\<close>

theorem C1_cited_value_counterexample:
  "remarkLintBlockquoteIndentation quotes_doc (Some (Width 4)) =
     [\<lparr>reason = ''Add 1 space between block quote and content'',
       place = AtPoint \<lparr>line = 1, column = 4, offset = None\<rparr>\<rparr>,
      \<lparr>reason = ''Add 2 spaces between block quote and content'',
       place = AtPoint \<lparr>line = 9, column = 3, offset = None\<rparr>\<rparr>]
   \<and> \<not> sublist (digits 4) ''Add 1 space between block quote and content''
   \<and> \<not> sublist (digits 4) ''Add 2 spaces between block quote and content''
   \<and> map (\<lambda>(n, h, c). c) (observations indent_of (visit quotes_doc ''blockquote'')) = [3, 4, 2]
   \<and> map place (remarkLintBlockquoteIndentation quotes_doc (Some (Width 0))) =
       [AtPoint \<lparr>line = 5, column = 5, offset = None\<rparr>,
        AtPoint \<lparr>line = 9, column = 3, offset = None\<rparr>]"
proof -
  have "remarkLintBlockquoteIndentation quotes_doc (Some (Width 4)) =
      map (\<lambda>(n, hc). indent_diag 4 hc)
        (filter (\<lambda>(n, hc). snd hc \<noteq> 4) (observations indent_of (visit quotes_doc ''blockquote'')))"
    by (simp add: remarkLintBlockquoteIndentation_def blockquote_run_concrete)
  then have "remarkLintBlockquoteIndentation quotes_doc (Some (Width 4)) =
     [\<lparr>reason = ''Add 1 space between block quote and content'',
       place = AtPoint \<lparr>line = 1, column = 4, offset = None\<rparr>\<rparr>,
      \<lparr>reason = ''Add 2 spaces between block quote and content'',
       place = AtPoint \<lparr>line = 9, column = 3, offset = None\<rparr>\<rparr>]"
    by (simp add: obs_quotes_doc indent_diag_def digits_small digit_def)
  moreover have "\<not> sublist (digits 4) ''Add 1 space between block quote and content''"
    by code_simp
  moreover have "\<not> sublist (digits 4) ''Add 2 spaces between block quote and content''"
    by code_simp
  moreover have "map (\<lambda>(n, h, c). c) (observations indent_of (visit quotes_doc ''blockquote''))
      = [3, 4, 2]"
    by (simp add: obs_quotes_doc)
  moreover have "remarkLintBlockquoteIndentation quotes_doc (Some (Width 0)) =
      map (\<lambda>(n, hc). indent_diag 3 hc)
        (filter (\<lambda>(n, hc). snd hc \<noteq> 3)
           [(blockquote_at 5 5 10, (\<lparr>line = 5, column = 5, offset = None\<rparr>, 4)),
            (blockquote_at 9 3 8, (\<lparr>line = 9, column = 3, offset = None\<rparr>, 2))])"
    by (simp add: remarkLintBlockquoteIndentation_def
        blockquote_run_consistent_first [OF obs_quotes_doc])
  then have "map place (remarkLintBlockquoteIndentation quotes_doc (Some (Width 0))) =
       [AtPoint \<lparr>line = 5, column = 5, offset = None\<rparr>,
        AtPoint \<lparr>line = 9, column = 3, offset = None\<rparr>]"
    by (simp add: indent_diag_def)
  ultimately show ?thesis by simp
qed

text \<open>
  Why rule-style needs the first observed text not to be the word
  \<open>consistent\<close>: the option then stays \<open>consistent\<close> and the next thematic
  break is adopted instead.
\<close>

lemma rule_style_sentinel_text:
  "map (rule_of sentinel_source) (visit sentinel_doc ''thematicBreak'') =
     [Some ''consistent'', Some ''***'', Some ''---'']
   \<and> remarkLintRuleStyle sentinel_doc sentinel_source None =
     Inr [\<lparr>reason = ''Rules should use `***`'', place = AtNode (thematicBreak_at 3 15 18)\<rparr>]"
  by code_simp

text \<open>
  C4. In rule-style, a configured string other than \<open>consistent\<close> that holds a
  character outside the marker set (dash, underscore, asterisk, space) makes
  the rule fail before it visits the tree: the run returns the failure and no
  list of diagnostics, whatever the tree holds. Both versions of the rule do so.
\<close>

theorem C4_invalid_style_fails:
  assumes "opt \<noteq> ''consistent''"
    and "\<exists>c \<in> set opt. c \<notin> {CHR ''-'', CHR ''_'', CHR ''*'', CHR '' ''}"
  shows "remarkLintRuleStyle tree file (Some opt) = Inl (Fail rule_style_fail)
         \<and> ruleStyle tree file (Some opt) = Inl (Fail rule_style_fail)"
proof -
  from assms(2) have bad: "bad_style opt"
    by (auto simp: bad_style_def)
  then have "opt \<noteq> []"
    by (auto simp: bad_style_def)
  with assms(1) bad show ?thesis
    by (simp add: remarkLintRuleStyle_def ruleStyle_def)
qed

theorem C4_invalid_style_fails_witness:
  "remarkLintRuleStyle rules_doc rules_source (Some pile_of_poo) = Inl (Fail rule_style_fail)
   \<and> ruleStyle rules_doc rules_source (Some pile_of_poo) = Inl (Fail rule_style_fail)
   \<and> remarkLintRuleStyle rules_doc rules_source (Some ''***'') \<noteq> Inr []"
proof -
  have h1: "pile_of_poo \<noteq> ''consistent''"
    by (simp add: pile_of_poo_def)
  have h2: "\<exists>c \<in> set pile_of_poo. c \<notin> {CHR ''-'', CHR ''_'', CHR ''*'', CHR '' ''}"
    by (simp add: pile_of_poo_def)
  have "remarkLintRuleStyle rules_doc rules_source (Some ''***'') \<noteq> Inr []"
    by (simp add: remarkLintRuleStyle_def bad_style_def rule_style_run_concrete obs_rules_doc)
  with C4_invalid_style_fails [OF h1 h2, of rules_doc rules_source] show ?thesis
    by simp
qed

text \<open>
  C8. rule-style in consistent mode: when every observed thematic break has
  the same text, no diagnostic is produced, and none is produced on any
  reordering of the visited nodes either (whichever would come first).
\<close>

theorem C8_identical_observations:
  assumes "opts = None \<or> opts = Some ''consistent''"
    and "\<forall>n \<in> set (visit tree ''thematicBreak''). \<forall>r. rule_of file n = Some r \<longrightarrow> r = v"
  shows "remarkLintRuleStyle tree file opts = Inr []
         \<and> (\<forall>ns. set ns = set (visit tree ''thematicBreak'') \<longrightarrow>
               snd (run (rule_style_visitor file) ''consistent'' ns) = [])"
proof (intro conjI allI impI)
  from assms(2) have "snd (run (rule_style_visitor file) ''consistent'' (visit tree ''thematicBreak'')) = []"
    by (intro rule_style_run_same [where v = v]) simp_all
  with assms(1) show "remarkLintRuleStyle tree file opts = Inr []"
    by (auto simp: remarkLintRuleStyle_def)
next
  fix ns
  assume "set ns = set (visit tree ''thematicBreak'')"
  with assms(2) have "\<forall>n \<in> set ns. \<forall>r. rule_of file n = Some r \<longrightarrow> r = v"
    by simp
  then show "snd (run (rule_style_visitor file) ''consistent'' ns) = []"
    by (intro rule_style_run_same [where v = v]) simp_all
qed

lemma visit_same_rules_doc:
  "visit same_rules_doc ''thematicBreak'' =
     [thematicBreak_at 1 0 3, thematicBreak_at 3 5 8, thematicBreak_at 5 10 13]"
  by (simp add: same_rules_doc_def root_of_def visit_def thematicBreak_at_def)

theorem C8_identical_observations_witness:
  "remarkLintRuleStyle same_rules_doc same_rules_source None = Inr []
   \<and> snd (run (rule_style_visitor same_rules_source) ''consistent''
        [thematicBreak_at 5 10 13, thematicBreak_at 1 0 3, thematicBreak_at 3 5 8]) = []
   \<and> map (rule_of same_rules_source) (visit same_rules_doc ''thematicBreak'') =
        [Some ''***'', Some ''***'', Some ''***'']"
proof -
  have h1: "None = None \<or> None = Some ''consistent''" by simp
  have rs: "map (rule_of same_rules_source) (visit same_rules_doc ''thematicBreak'') =
        [Some ''***'', Some ''***'', Some ''***'']"
    by (simp add: visit_same_rules_doc rule_of_def same_rules_source_def thematicBreak_at_def
        pointStart_def pointEnd_def valid_point_def slice_def)
  have h2: "\<forall>n \<in> set (visit same_rules_doc ''thematicBreak'').
              \<forall>r. rule_of same_rules_source n = Some r \<longrightarrow> r = ''***''"
    using rs by (auto simp: visit_same_rules_doc)
  have perm: "set [thematicBreak_at 5 10 13, thematicBreak_at 1 0 3, thematicBreak_at 3 5 8]
              = set (visit same_rules_doc ''thematicBreak'')"
    by (auto simp: visit_same_rules_doc)
  from C8_identical_observations [OF h1 h2] perm rs show ?thesis
    by blast
qed

text \<open>
  C9. In blockquote-indentation the option 0 (like a missing option) is read
  as \<open>consistent\<close>: the run equals the run in consistent mode, so the first
  block quote's indent is adopted and the later ones are compared against it,
  not against 0.
\<close>

theorem C9_zero_is_consistent:
  "remarkLintBlockquoteIndentation tree (Some (Width 0)) =
     remarkLintBlockquoteIndentation tree (Some Consistent)
   \<and> remarkLintBlockquoteIndentation tree None =
       remarkLintBlockquoteIndentation tree (Some Consistent)
   \<and> (observations indent_of (visit tree ''blockquote'') = [] \<longrightarrow>
        remarkLintBlockquoteIndentation tree (Some (Width 0)) = [])
   \<and> (\<forall>n1 h1 c1 rest.
        observations indent_of (visit tree ''blockquote'') = (n1, (h1, c1)) # rest \<longrightarrow>
          remarkLintBlockquoteIndentation tree (Some (Width 0)) =
            map (\<lambda>(n, hc). indent_diag c1 hc) (filter (\<lambda>(n, hc). snd hc \<noteq> c1) rest))"
  by (simp add: remarkLintBlockquoteIndentation_def blockquote_run_consistent_none
      blockquote_run_consistent_first)

theorem C9_zero_is_consistent_witness:
  "remarkLintBlockquoteIndentation quotes_doc (Some (Width 0)) =
     [\<lparr>reason = ''Remove 1 space between block quote and content'',
       place = AtPoint \<lparr>line = 5, column = 5, offset = None\<rparr>\<rparr>,
      \<lparr>reason = ''Add 1 space between block quote and content'',
       place = AtPoint \<lparr>line = 9, column = 3, offset = None\<rparr>\<rparr>]
   \<and> remarkLintBlockquoteIndentation rules_doc (Some (Width 0)) = []"
proof -
  have obs_r: "observations indent_of (visit rules_doc ''blockquote'') = []"
    by (simp add: rules_doc_def root_of_def visit_def thematicBreak_at_def)
  have 1: "remarkLintBlockquoteIndentation quotes_doc (Some (Width 0)) =
     [\<lparr>reason = ''Remove 1 space between block quote and content'',
       place = AtPoint \<lparr>line = 5, column = 5, offset = None\<rparr>\<rparr>,
      \<lparr>reason = ''Add 1 space between block quote and content'',
       place = AtPoint \<lparr>line = 9, column = 3, offset = None\<rparr>\<rparr>]"
  proof -
    from C9_zero_is_consistent [of quotes_doc]
    have "\<forall>n1 h1 c1 rest.
        observations indent_of (visit quotes_doc ''blockquote'') = (n1, (h1, c1)) # rest \<longrightarrow>
          remarkLintBlockquoteIndentation quotes_doc (Some (Width 0)) =
            map (\<lambda>(n, hc). indent_diag c1 hc) (filter (\<lambda>(n, hc). snd hc \<noteq> c1) rest)"
      by (elim conjE)
    then show ?thesis
      by (simp add: obs_quotes_doc indent_diag_def digits_small digit_def)
  qed
  have 2: "remarkLintBlockquoteIndentation rules_doc (Some (Width 0)) = []"
    using C9_zero_is_consistent [of rules_doc] obs_r by blast
  from 1 2 show ?thesis by simp
qed

subsection \<open>no-duplicate-definitions and no-duplicate-headings\<close>

lemma run_append:
  "run f s (xs @ ys) =
     (fst (run f (fst (run f s xs)) ys), snd (run f s xs) @ snd (run f (fst (run f s xs)) ys))"
  by (induction xs arbitrary: s) (simp_all split: prod.splits)

lemma run_split:
  "snd (run f s (pre @ x # post)) =
     snd (run f s pre) @ snd (f (fst (run f s pre)) x) @ emitted f s (pre @ [x]) post"
  by (simp add: run_append emitted_def split: prod.splits)

lemma digits_nonempty: "digits n \<noteq> []"
  by (induction n rule: digits.induct) (subst digits.simps, simp)

lemma stringifyPosition_nonempty: "stringifyPosition p \<noteq> []"
  by (simp add: stringifyPosition_def digits_nonempty)

lemma position_of_start: "position_of n = Some pl \<Longrightarrow> pointStart n = Some (start pl)"
  by (auto simp: position_of_def split: option.splits)

lemma nearest_before_snoc:
  "nearest_before P (xs @ [x]) = (if P x then Some x else nearest_before P xs)"
  by (simp add: nearest_before_def)

lemma definitions_state:
  "fst (run duplicate_definitions_visitor Map.empty pre) k = stored is_definition ident pre k"
proof (induction pre rule: rev_induct)
  case Nil
  then show ?case by (simp add: stored_def nearest_before_def)
next
  case (snoc x xs)
  show ?case
  proof (cases "is_definition x")
    case True
    then show ?thesis
      using snoc
      by (auto simp: run_append duplicate_definitions_visitor_def is_definition_def Let_def
          stored_def nearest_before_snoc position_of_start split: prod.splits)
  next
    case False
    then have "duplicate_definitions_visitor m x = (m, [])" for m
      by (auto simp: duplicate_definitions_visitor_def is_definition_def Let_def)
    with False snoc show ?thesis
      by (simp add: run_append stored_def nearest_before_snoc split: prod.splits)
  qed
qed

lemma headings_state:
  "fst (run (duplicate_headings_visitor upper) Map.empty pre) k = stored is_heading (heading_key upper) pre k"
proof (induction pre rule: rev_induct)
  case Nil
  then show ?case by (simp add: stored_def nearest_before_def)
next
  case (snoc x xs)
  show ?case
  proof (cases "is_heading x")
    case True
    then show ?thesis
      using snoc
      by (auto simp: run_append duplicate_headings_visitor_def is_heading_def heading_key_def
          Let_def stored_def nearest_before_snoc position_of_start split: prod.splits)
  next
    case False
    then have "duplicate_headings_visitor upper m x = (m, [])" for m
      by (auto simp: duplicate_headings_visitor_def is_heading_def Let_def)
    with False snoc show ?thesis
      by (simp add: run_append stored_def nearest_before_snoc split: prod.splits)
  qed
qed

lemma stored_Some:
  "nearest_before (\<lambda>x. q x \<and> key x = k) pre = Some a \<Longrightarrow>
   stored q key pre k = Some (stringifyPosition (the (pointStart a)))"
  by (simp add: stored_def)

lemma stored_None:
  "nearest_before (\<lambda>x. q x \<and> key x = k) pre = None \<Longrightarrow> stored q key pre k = None"
  by (simp add: stored_def)

lemma definitions_visitor_at:
  assumes "is_definition b" and "position_of b = Some pb"
  shows "snd (duplicate_definitions_visitor m b) =
     (if truthy (m (ident b))
      then [\<lparr>reason = ''Do not use definitions with the same identifier (''
                       @ the (m (ident b)) @ '')'',
              place = AtPosition pb\<rparr>]
      else [])"
  using assms position_of_start [OF assms(2)]
  by (simp add: duplicate_definitions_visitor_def Let_def is_definition_def)

lemma definitions_emit:
  assumes "is_definition b" and "position_of b = Some pb"
  shows "snd (duplicate_definitions_visitor (fst (run duplicate_definitions_visitor Map.empty pre)) b) =
     (case nearest_before (\<lambda>x. is_definition x \<and> ident x = ident b) pre of
        None \<Rightarrow> []
      | Some a \<Rightarrow> [\<lparr>reason = ''Do not use definitions with the same identifier (''
                             @ stringifyPosition (the (pointStart a)) @ '')'',
                    place = AtPosition pb\<rparr>])"
  by (cases "nearest_before (\<lambda>x. is_definition x \<and> ident x = ident b) pre")
    (simp_all add: definitions_visitor_at [OF assms] definitions_state stored_Some stored_None truthy_def stringifyPosition_nonempty)

lemma headings_visitor_at:
  assumes "position_of b = Some pb"
  shows "snd (duplicate_headings_visitor upper m b) =
     (if truthy (m (heading_key upper b))
      then [\<lparr>reason = ''Do not use headings with similar content (''
                       @ the (m (heading_key upper b)) @ '')'',
              place = AtNode b\<rparr>]
      else [])"
  using assms position_of_start [OF assms]
  by (simp add: duplicate_headings_visitor_def Let_def heading_key_def)

lemma headings_emit:
  assumes "is_heading b"
  shows "snd (duplicate_headings_visitor upper (fst (run (duplicate_headings_visitor upper) Map.empty pre)) b) =
     (case nearest_before (\<lambda>x. is_heading x \<and> heading_key upper x = heading_key upper b) pre of
        None \<Rightarrow> []
      | Some a \<Rightarrow> [\<lparr>reason = ''Do not use headings with similar content (''
                             @ stringifyPosition (the (pointStart a)) @ '')'',
                    place = AtNode b\<rparr>])"
proof -
  obtain pb where pb: "position_of b = Some pb"
    using assms by (auto simp: is_heading_def)
  show ?thesis
    by (cases "nearest_before (\<lambda>x. is_heading x \<and> heading_key upper x = heading_key upper b) pre")
      (simp_all add: headings_visitor_at [OF pb] headings_state stored_Some stored_None truthy_def stringifyPosition_nonempty)
qed

lemma nearest_before_found:
  assumes "P a"
  shows "\<exists>x. nearest_before P (pre @ a # mid) = Some x \<and> P x
             \<and> ((\<forall>m \<in> set mid. \<not> P m) \<longrightarrow> x = a)"
proof (induction mid rule: rev_induct)
  case Nil
  with assms show ?case by (simp add: nearest_before_def)
next
  case (snoc m ms)
  with assms show ?case by (auto simp: nearest_before_def)
qed

text \<open>
  C2 (as amended). no-duplicate-definitions (over positioned definition and
  footnoteDefinition nodes, keyed by identifier) and no-duplicate-headings
  (over positioned headings, keyed by the upper-cased flattened text): for two
  qualifying nodes with the same key, the second visited after the first,
  exactly one diagnostic is produced when the second is visited, placed at the
  second. Its message cites the stringified start of the nearest qualifying
  node with that key before the second: the first of the two when no other
  such node lies between them.
\<close>

theorem C2_duplicates:
  "(visit_all tree = pre @ a # mid @ b # post
      \<and> is_definition a \<and> is_definition b \<and> ident a = ident b \<longrightarrow>
      (\<exists>x. nearest_before (\<lambda>n. is_definition n \<and> ident n = ident b) (pre @ a # mid) = Some x
         \<and> ((\<forall>m \<in> set mid. \<not> (is_definition m \<and> ident m = ident b)) \<longrightarrow> x = a)
         \<and> remarkLintNoDuplicateDefinitions tree =
             snd (run duplicate_definitions_visitor Map.empty (pre @ a # mid))
             @ [\<lparr>reason = ''Do not use definitions with the same identifier (''
                          @ stringifyPosition (the (pointStart x)) @ '')'',
                 place = AtPosition (the (position_of b))\<rparr>]
             @ emitted duplicate_definitions_visitor Map.empty (pre @ a # mid @ [b]) post))
   \<and> (visit tree ''heading'' = pre' @ a' # mid' @ b' # post'
      \<and> is_heading a' \<and> is_heading b' \<and> heading_key upper a' = heading_key upper b' \<longrightarrow>
      (\<exists>x. nearest_before (\<lambda>n. is_heading n \<and> heading_key upper n = heading_key upper b') (pre' @ a' # mid') = Some x
         \<and> ((\<forall>m \<in> set mid'. \<not> (is_heading m \<and> heading_key upper m = heading_key upper b')) \<longrightarrow> x = a')
         \<and> remarkLintNoDuplicateHeadings upper tree =
             snd (run (duplicate_headings_visitor upper) Map.empty (pre' @ a' # mid'))
             @ [\<lparr>reason = ''Do not use headings with similar content (''
                          @ stringifyPosition (the (pointStart x)) @ '')'',
                 place = AtNode b'\<rparr>]
             @ emitted (duplicate_headings_visitor upper) Map.empty (pre' @ a' # mid' @ [b']) post'))"
proof (intro conjI impI)
  assume h: "visit_all tree = pre @ a # mid @ b # post
      \<and> is_definition a \<and> is_definition b \<and> ident a = ident b"
  then have "is_definition a \<and> ident a = ident b" by simp
  from nearest_before_found [of "\<lambda>n. is_definition n \<and> ident n = ident b" a pre mid, OF this]
  obtain x where x: "nearest_before (\<lambda>n. is_definition n \<and> ident n = ident b) (pre @ a # mid) = Some x"
    and xa: "(\<forall>m \<in> set mid. \<not> (is_definition m \<and> ident m = ident b)) \<longrightarrow> x = a"
    by blast
  from h obtain pb where pb: "position_of b = Some pb"
    by (auto simp: is_definition_def)
  from h have v: "visit_all tree = (pre @ a # mid) @ b # post" by simp
  have "remarkLintNoDuplicateDefinitions tree =
      snd (run duplicate_definitions_visitor Map.empty (pre @ a # mid))
      @ snd (duplicate_definitions_visitor
               (fst (run duplicate_definitions_visitor Map.empty (pre @ a # mid))) b)
      @ emitted duplicate_definitions_visitor Map.empty ((pre @ a # mid) @ [b]) post"
    unfolding remarkLintNoDuplicateDefinitions_def v by (rule run_split)
  with h pb x have "remarkLintNoDuplicateDefinitions tree =
      snd (run duplicate_definitions_visitor Map.empty (pre @ a # mid))
      @ [\<lparr>reason = ''Do not use definitions with the same identifier (''
                   @ stringifyPosition (the (pointStart x)) @ '')'',
          place = AtPosition (the (position_of b))\<rparr>]
      @ emitted duplicate_definitions_visitor Map.empty (pre @ a # mid @ [b]) post"
    by (simp add: definitions_emit)
  with x xa show "\<exists>x. nearest_before (\<lambda>n. is_definition n \<and> ident n = ident b) (pre @ a # mid) = Some x
         \<and> ((\<forall>m \<in> set mid. \<not> (is_definition m \<and> ident m = ident b)) \<longrightarrow> x = a)
         \<and> remarkLintNoDuplicateDefinitions tree =
             snd (run duplicate_definitions_visitor Map.empty (pre @ a # mid))
             @ [\<lparr>reason = ''Do not use definitions with the same identifier (''
                          @ stringifyPosition (the (pointStart x)) @ '')'',
                 place = AtPosition (the (position_of b))\<rparr>]
             @ emitted duplicate_definitions_visitor Map.empty (pre @ a # mid @ [b]) post"
    by blast
next
  assume h: "visit tree ''heading'' = pre' @ a' # mid' @ b' # post'
      \<and> is_heading a' \<and> is_heading b' \<and> heading_key upper a' = heading_key upper b'"
  then have "is_heading a' \<and> heading_key upper a' = heading_key upper b'" by simp
  from nearest_before_found [of "\<lambda>n. is_heading n \<and> heading_key upper n = heading_key upper b'" a' pre' mid', OF this]
  obtain x where x: "nearest_before (\<lambda>n. is_heading n \<and> heading_key upper n = heading_key upper b') (pre' @ a' # mid') = Some x"
    and xa: "(\<forall>m \<in> set mid'. \<not> (is_heading m \<and> heading_key upper m = heading_key upper b')) \<longrightarrow> x = a'"
    by blast
  from h have v: "visit tree ''heading'' = (pre' @ a' # mid') @ b' # post'" by simp
  have "remarkLintNoDuplicateHeadings upper tree =
      snd (run (duplicate_headings_visitor upper) Map.empty (pre' @ a' # mid'))
      @ snd (duplicate_headings_visitor upper
               (fst (run (duplicate_headings_visitor upper) Map.empty (pre' @ a' # mid'))) b')
      @ emitted (duplicate_headings_visitor upper) Map.empty ((pre' @ a' # mid') @ [b']) post'"
    unfolding remarkLintNoDuplicateHeadings_def v by (rule run_split)
  with h x have "remarkLintNoDuplicateHeadings upper tree =
      snd (run (duplicate_headings_visitor upper) Map.empty (pre' @ a' # mid'))
      @ [\<lparr>reason = ''Do not use headings with similar content (''
                   @ stringifyPosition (the (pointStart x)) @ '')'',
          place = AtNode b'\<rparr>]
      @ emitted (duplicate_headings_visitor upper) Map.empty (pre' @ a' # mid' @ [b']) post'"
    by (simp add: headings_emit)
  with x xa show "\<exists>x. nearest_before (\<lambda>n. is_heading n \<and> heading_key upper n = heading_key upper b') (pre' @ a' # mid') = Some x
         \<and> ((\<forall>m \<in> set mid'. \<not> (is_heading m \<and> heading_key upper m = heading_key upper b')) \<longrightarrow> x = a')
         \<and> remarkLintNoDuplicateHeadings upper tree =
             snd (run (duplicate_headings_visitor upper) Map.empty (pre' @ a' # mid'))
             @ [\<lparr>reason = ''Do not use headings with similar content (''
                          @ stringifyPosition (the (pointStart x)) @ '')'',
                 place = AtNode b'\<rparr>]
             @ emitted (duplicate_headings_visitor upper) Map.empty (pre' @ a' # mid' @ [b']) post'"
    by blast
qed

lemma upper_Foo: "toUpperCase_ascii ''Foo'' = ''FOO''"
  by code_simp

lemma heading_key_foo:
  "heading_key toUpperCase_ascii foo1 = ''FOO''" "heading_key toUpperCase_ascii foo2 = ''FOO''" "heading_key toUpperCase_ascii foo3 = ''FOO''"
  by (simp_all add: heading_key_def foo1_def foo2_def foo3_def heading_node_def text_node_def upper_Foo)

lemma is_heading_foo: "is_heading foo1" "is_heading foo2" "is_heading foo3"
  by (simp_all add: is_heading_def foo1_def foo2_def foo3_def heading_node_def position_of_def
      pointStart_def pointEnd_def valid_point_def span_def)

lemma visit_headings_doc: "visit headings_doc ''heading'' = [foo1, foo2, foo3]"
  by (simp add: headings_doc_def root_of_def visit_def foo1_def foo2_def foo3_def
      heading_node_def text_node_def)

lemma start_foo:
  "stringifyPosition (the (pointStart foo1)) = ''1:1''"
  "stringifyPosition (the (pointStart foo2)) = ''3:1''"
  "stringifyPosition (the (pointStart foo3)) = ''5:1''"
  by (simp_all add: foo1_def foo2_def foo3_def heading_node_def pointStart_def valid_point_def
      span_def stringifyPosition_def index_or_1_def digits_small digit_def)

lemma headings_doc_result:
  "remarkLintNoDuplicateHeadings toUpperCase_ascii headings_doc =
     [\<lparr>reason = ''Do not use headings with similar content (1:1)'', place = AtNode foo2\<rparr>,
      \<lparr>reason = ''Do not use headings with similar content (3:1)'', place = AtNode foo3\<rparr>]"
proof -
  have v: "duplicate_headings_visitor toUpperCase_ascii m n =
      (m(heading_key toUpperCase_ascii n \<mapsto> stringifyPosition (the (pointStart n))),
       if truthy (m (heading_key toUpperCase_ascii n))
       then [\<lparr>reason = ''Do not use headings with similar content (''
                        @ the (m (heading_key toUpperCase_ascii n)) @ '')'', place = AtNode n\<rparr>]
       else [])" if "is_heading n" for m n
    using that position_of_start [of n]
    by (auto simp: duplicate_headings_visitor_def is_heading_def heading_key_def Let_def)
  show ?thesis
    by (simp add: remarkLintNoDuplicateHeadings_def visit_headings_doc v is_heading_foo
        heading_key_foo start_foo truthy_def)
qed

lemma visit_definitions_doc:
  "visit_all definitions_doc = [definitions_doc] @ foo_def1 # [baz_def] @ foo_def3 # []"
  by (simp add: definitions_doc_def root_of_def foo_def1_def baz_def_def foo_def3_def
      definition_node_def)

lemma foo_def_facts:
  "is_definition foo_def1" "is_definition foo_def3" "ident foo_def1 = ident foo_def3"
  "\<not> (is_definition baz_def \<and> ident baz_def = ident foo_def3)"
  "stringifyPosition (the (pointStart foo_def1)) = ''1:1''"
  "position_of foo_def3 = Some (span 3 1 3 11)"
  by (simp_all add: is_definition_def foo_def1_def baz_def_def foo_def3_def definition_node_def
      position_of_def pointStart_def pointEnd_def valid_point_def span_def
      stringifyPosition_def index_or_1_def digits_small digit_def)

theorem C2_duplicates_witness:
  "remarkLintNoDuplicateDefinitions definitions_doc =
     [\<lparr>reason = ''Do not use definitions with the same identifier (1:1)'',
       place = AtPosition (span 3 1 3 11)\<rparr>]
   \<and> remarkLintNoDuplicateHeadings toUpperCase_ascii headings_doc =
     [\<lparr>reason = ''Do not use headings with similar content (1:1)'', place = AtNode foo2\<rparr>,
      \<lparr>reason = ''Do not use headings with similar content (3:1)'', place = AtNode foo3\<rparr>]"
proof -
  note t1 = C2_duplicates [where upper = toUpperCase_ascii and tree = definitions_doc and pre = "[definitions_doc]"
      and a = foo_def1 and mid = "[baz_def]" and b = foo_def3 and post = "[]"]
  note t2 = C2_duplicates [where upper = toUpperCase_ascii and tree = headings_doc and pre' = "[]"
      and a' = foo1 and mid' = "[foo2]" and b' = foo3 and post' = "[]"]
  have a: "visit_all definitions_doc = [definitions_doc] @ foo_def1 # [baz_def] @ foo_def3 # []
      \<and> is_definition foo_def1 \<and> is_definition foo_def3 \<and> ident foo_def1 = ident foo_def3"
    using visit_definitions_doc foo_def_facts(1-3) by (intro conjI)
  have a': "\<forall>m \<in> set [baz_def]. \<not> (is_definition m \<and> ident m = ident foo_def3)"
    using foo_def_facts(4) by simp
  have b: "visit headings_doc ''heading'' = [] @ foo1 # [foo2] @ foo3 # []
      \<and> is_heading foo1 \<and> is_heading foo3 \<and> heading_key toUpperCase_ascii foo1 = heading_key toUpperCase_ascii foo3"
    by (simp add: visit_headings_doc is_heading_foo heading_key_foo)
  from t1 a a' have "remarkLintNoDuplicateDefinitions definitions_doc =
       snd (run duplicate_definitions_visitor Map.empty ([definitions_doc] @ foo_def1 # [baz_def]))
       @ [\<lparr>reason = ''Do not use definitions with the same identifier (''
                    @ stringifyPosition (the (pointStart foo_def1)) @ '')'',
            place = AtPosition (the (position_of foo_def3))\<rparr>]
       @ emitted duplicate_definitions_visitor Map.empty
           ([definitions_doc] @ foo_def1 # [baz_def] @ [foo_def3]) []"
    by blast
  moreover have "snd (run duplicate_definitions_visitor Map.empty
      [definitions_doc, foo_def1, baz_def]) = []"
    by code_simp
  ultimately have 1: "remarkLintNoDuplicateDefinitions definitions_doc =
     [\<lparr>reason = ''Do not use definitions with the same identifier (1:1)'',
       place = AtPosition (span 3 1 3 11)\<rparr>]"
    by (simp add: emitted_def foo_def_facts)
  from t2 b obtain y where
    y: "nearest_before (\<lambda>n. is_heading n \<and> heading_key toUpperCase_ascii n = heading_key toUpperCase_ascii foo3)
          ([] @ foo1 # [foo2]) = Some y"
    and "remarkLintNoDuplicateHeadings toUpperCase_ascii headings_doc =
       snd (run (duplicate_headings_visitor toUpperCase_ascii) Map.empty ([] @ foo1 # [foo2]))
       @ [\<lparr>reason = ''Do not use headings with similar content (''
                    @ stringifyPosition (the (pointStart y)) @ '')'',
            place = AtNode foo3\<rparr>]
       @ emitted (duplicate_headings_visitor toUpperCase_ascii) Map.empty ([] @ foo1 # [foo2] @ [foo3]) []"
    by blast
  moreover from y have "y = foo2"
    by (simp add: nearest_before_def is_heading_foo heading_key_foo)
  moreover have "snd (run (duplicate_headings_visitor toUpperCase_ascii) Map.empty [foo1, foo2]) =
      [\<lparr>reason = ''Do not use headings with similar content (1:1)'', place = AtNode foo2\<rparr>]"
    by code_simp
  ultimately have 2: "remarkLintNoDuplicateHeadings toUpperCase_ascii headings_doc =
     [\<lparr>reason = ''Do not use headings with similar content (1:1)'', place = AtNode foo2\<rparr>,
      \<lparr>reason = ''Do not use headings with similar content (3:1)'', place = AtNode foo3\<rparr>]"
    by (simp add: emitted_def start_foo)
  from 1 2 show ?thesis by simp
qed

text \<open>
  The claim as first stated has the message cite the first of the two nodes.
  Of three headings with the same text, at 1:1, 3:1 and 5:1, the third is
  reported with the position of the second, not of the first.
\<close>

theorem C2_first_occurrence_counterexample:
  "visit headings_doc ''heading'' = [foo1, foo2, foo3]
   \<and> is_heading foo1 \<and> is_heading foo3 \<and> heading_key toUpperCase_ascii foo1 = heading_key toUpperCase_ascii foo3
   \<and> stringifyPosition (the (pointStart foo1)) = ''1:1''
   \<and> filter (\<lambda>d. place d = AtNode foo3) (remarkLintNoDuplicateHeadings toUpperCase_ascii headings_doc) =
       [\<lparr>reason = ''Do not use headings with similar content (3:1)'', place = AtNode foo3\<rparr>]"
proof -
  have "foo2 \<noteq> foo3"
    by (simp add: foo2_def foo3_def heading_node_def span_def)
  then show ?thesis
    by (simp add: visit_headings_doc is_heading_foo heading_key_foo start_foo headings_doc_result)
qed

subsection \<open>no-duplicate-headings-in-section\<close>

lemma length_pad: "length (pad st n) = max (length st) n"
  by (simp add: pad_def)

lemma nth_pad: "i < max (length st) n \<Longrightarrow> pad st n ! i = (if i < length st then st ! i else Map.empty)"
  by (auto simp: pad_def nth_append)

lemma section_visitor_scope:
  assumes "1 \<le> d"
  shows "scope_at (fst (section_visitor upper st h)) d =
     (if depth h < d then Map.empty
      else if depth h = d then (scope_at st d)(heading_key upper h \<mapsto> h)
      else scope_at st d)"
proof (cases "depth h = 0")
  case True
  with assms show ?thesis
    by (simp add: section_visitor_def scope_at_def)
next
  case False
  then show ?thesis
    using assms
    by (auto simp: section_visitor_def scope_at_def Let_def length_pad nth_pad heading_key_def
        min_def max_def)
qed

lemma section_visitor_length: "length (fst (section_visitor upper st h)) = depth h"
  by (simp add: section_visitor_def Let_def length_pad)

lemma section_visitor_emit:
  assumes "1 \<le> depth h"
  shows "snd (section_visitor upper st h) =
     (if \<not> generated h \<and> scope_at st (depth h) (heading_key upper h) \<noteq> None
      then [\<lparr>reason = section_reason @ '' (''
                 @ stringifyPosition_legacy (pointStart_legacy (scope_at st (depth h) (heading_key upper h)))
                 @ '')'',
              place = AtNode h\<rparr>]
      else [])"
  using assms
  by (auto simp: section_visitor_def scope_at_def Let_def length_pad nth_pad heading_key_def)

lemma section_state:
  assumes "1 \<le> d"
  shows "scope_at (fst (run (section_visitor upper) [] xs)) d k = section_entry upper d k (rev xs)"
proof (induction xs rule: rev_induct)
  case Nil
  then show ?case by (auto simp: scope_at_def)
next
  case (snoc x xs)
  then show ?case
    by (simp add: run_append section_visitor_scope [OF assms] split: prod.splits)
qed

lemma section_entry_same:
  assumes "\<forall>m \<in> set ms. d \<le> depth m \<and> \<not> (depth m = d \<and> heading_key upper m = k)"
    and "depth b = d" and "heading_key upper b = k"
  shows "section_entry upper d k (ms @ b # rest) = Some b"
  using assms by (induction ms) auto

lemma section_entry_other:
  assumes "\<forall>m \<in> set ms. \<not> (depth m = d \<and> heading_key upper m = k)"
    and "depth s < d"
  shows "section_entry upper d k (ms @ s # rest) = None"
  using assms by (induction ms) auto

text \<open>
  C3 (as amended). no-duplicate-headings-in-section. Visiting a heading
  empties the scope of every greater depth, adds the heading to the scope of
  its own depth and leaves the scopes of smaller depths as they are. So a
  heading whose text was used at the same depth before a shallower heading is
  not reported. Of two headings of one depth with the same key, with no
  shallower heading and no other heading of that depth and key between them,
  the second is reported exactly once, citing the start of the first, when it
  has a position, and not at all when it has none.
\<close>

theorem C3_section_scope:
  "(1 \<le> d \<longrightarrow>
      scope_at (fst (section_visitor upper st h)) d =
        (if depth h < d then Map.empty
         else if depth h = d then (scope_at st d)(heading_key upper h \<mapsto> h)
         else scope_at st d))
   \<and> (visit tree ''heading'' = pre @ s # mid @ b2 # post
        \<and> depth s < depth b2
        \<and> (\<forall>m \<in> set mid. \<not> (depth m = depth b2 \<and> heading_key upper m = heading_key upper b2)) \<longrightarrow>
        noDuplicateHeadingsInSection upper tree =
          snd (run (section_visitor upper) [] (pre @ s # mid))
          @ emitted (section_visitor upper) [] (pre @ s # mid @ [b2]) post)
   \<and> (visit tree ''heading'' = pre' @ b1 # mid' @ b2' # post'
        \<and> depth b1 = depth b2' \<and> 1 \<le> depth b2' \<and> heading_key upper b1 = heading_key upper b2'
        \<and> (\<forall>m \<in> set mid'. depth b2' \<le> depth m
                            \<and> \<not> (depth m = depth b2' \<and> heading_key upper m = heading_key upper b2')) \<longrightarrow>
        noDuplicateHeadingsInSection upper tree =
          snd (run (section_visitor upper) [] (pre' @ b1 # mid'))
          @ (if generated b2' then []
             else [\<lparr>reason = section_reason @ '' (''
                          @ stringifyPosition_legacy (pointStart_legacy (Some b1)) @ '')'',
                    place = AtNode b2'\<rparr>])
          @ emitted (section_visitor upper) [] (pre' @ b1 # mid' @ [b2']) post')"
proof (intro conjI impI)
  assume "1 \<le> d"
  then show "scope_at (fst (section_visitor upper st h)) d =
        (if depth h < d then Map.empty
         else if depth h = d then (scope_at st d)(heading_key upper h \<mapsto> h)
         else scope_at st d)"
    by (rule section_visitor_scope)
next
  assume h: "visit tree ''heading'' = pre @ s # mid @ b2 # post
        \<and> depth s < depth b2
        \<and> (\<forall>m \<in> set mid. \<not> (depth m = depth b2 \<and> heading_key upper m = heading_key upper b2))"
  then have d: "1 \<le> depth b2" by simp
  from h have v: "visit tree ''heading'' = (pre @ s # mid) @ b2 # post" by simp
  from h have "section_entry upper (depth b2) (heading_key upper b2) (rev mid @ s # rev pre) = None"
    by (intro section_entry_other) simp_all
  then have "scope_at (fst (run (section_visitor upper) [] (pre @ s # mid))) (depth b2) (heading_key upper b2) = None"
    by (simp add: section_state [OF d])
  then have e: "snd (section_visitor upper (fst (run (section_visitor upper) [] (pre @ s # mid))) b2) = []"
    by (simp add: section_visitor_emit [OF d])
  have "noDuplicateHeadingsInSection upper tree =
      snd (run (section_visitor upper) [] (pre @ s # mid))
      @ snd (section_visitor upper (fst (run (section_visitor upper) [] (pre @ s # mid))) b2)
      @ emitted (section_visitor upper) [] ((pre @ s # mid) @ [b2]) post"
    unfolding noDuplicateHeadingsInSection_def v by (rule run_split)
  with e show "noDuplicateHeadingsInSection upper tree =
          snd (run (section_visitor upper) [] (pre @ s # mid))
          @ emitted (section_visitor upper) [] (pre @ s # mid @ [b2]) post"
    by simp
next
  assume h: "visit tree ''heading'' = pre' @ b1 # mid' @ b2' # post'
        \<and> depth b1 = depth b2' \<and> 1 \<le> depth b2' \<and> heading_key upper b1 = heading_key upper b2'
        \<and> (\<forall>m \<in> set mid'. depth b2' \<le> depth m
                            \<and> \<not> (depth m = depth b2' \<and> heading_key upper m = heading_key upper b2'))"
  then have d: "1 \<le> depth b2'" by simp
  from h have v: "visit tree ''heading'' = (pre' @ b1 # mid') @ b2' # post'" by simp
  from h have "section_entry upper (depth b2') (heading_key upper b2') (rev mid' @ b1 # rev pre') = Some b1"
    by (intro section_entry_same) simp_all
  then have "scope_at (fst (run (section_visitor upper) [] (pre' @ b1 # mid'))) (depth b2') (heading_key upper b2') = Some b1"
    by (simp add: section_state [OF d])
  then have e: "snd (section_visitor upper (fst (run (section_visitor upper) [] (pre' @ b1 # mid'))) b2') =
      (if generated b2' then []
       else [\<lparr>reason = section_reason @ '' (''
                    @ stringifyPosition_legacy (pointStart_legacy (Some b1)) @ '')'',
              place = AtNode b2'\<rparr>])"
    by (simp add: section_visitor_emit [OF d])
  have "noDuplicateHeadingsInSection upper tree =
      snd (run (section_visitor upper) [] (pre' @ b1 # mid'))
      @ snd (section_visitor upper (fst (run (section_visitor upper) [] (pre' @ b1 # mid'))) b2')
      @ emitted (section_visitor upper) [] ((pre' @ b1 # mid') @ [b2']) post'"
    unfolding noDuplicateHeadingsInSection_def v by (rule run_split)
  with e show "noDuplicateHeadingsInSection upper tree =
          snd (run (section_visitor upper) [] (pre' @ b1 # mid'))
          @ (if generated b2' then []
             else [\<lparr>reason = section_reason @ '' (''
                          @ stringifyPosition_legacy (pointStart_legacy (Some b1)) @ '')'',
                    place = AtNode b2'\<rparr>])
          @ emitted (section_visitor upper) [] (pre' @ b1 # mid' @ [b2']) post'"
    by simp
qed

lemma visit_sections_doc:
  "visit sections_doc ''heading'' = [alpha, bravo1] @ charlie # [bravo2, delta] @ bravo3 # [echo, bravo4]"
  by (simp add: sections_doc_def root_of_def visit_def alpha_def bravo1_def charlie_def
      bravo2_def delta_def bravo3_def echo_def bravo4_def heading_node_def text_node_def)

lemma visit_increment_doc:
  "visit increment_doc ''heading'' = [alpha1] @ bravo_a # [charlie6] @ bravo_b # [delta6]"
  by (simp add: increment_doc_def root_of_def visit_def alpha1_def bravo_a_def charlie6_def
      bravo_b_def delta6_def heading_node_def text_node_def)

lemma sections_doc_prefix:
  "snd (run (section_visitor toUpperCase_ascii) [] ([alpha, bravo1] @ charlie # [bravo2, delta])) = []"
  by code_simp

lemma sections_doc_suffix:
  "emitted (section_visitor toUpperCase_ascii) [] ([alpha, bravo1] @ charlie # [bravo2, delta] @ [bravo3]) [echo, bravo4] = []"
  unfolding emitted_def by code_simp

lemma increment_doc_prefix:
  "snd (run (section_visitor toUpperCase_ascii) [] ([alpha1] @ bravo_a # [charlie6])) = []"
  by code_simp

lemma increment_doc_suffix:
  "emitted (section_visitor toUpperCase_ascii) [] ([alpha1] @ bravo_a # [charlie6] @ [bravo_b]) [delta6] = []"
  unfolding emitted_def by code_simp

lemma sections_doc_facts:
  "depth charlie = 2" "depth bravo1 = 3" "depth bravo2 = 3" "depth delta = 3" "depth bravo3 = 4"
  "heading_key toUpperCase_ascii bravo1 = ''BRAVO''" "heading_key toUpperCase_ascii bravo3 = ''BRAVO''"
  by (simp_all add: charlie_def bravo1_def bravo2_def delta_def bravo3_def heading_node_def
      text_node_def heading_key_def) code_simp+

lemma increment_doc_facts:
  "depth bravo_a = 4" "depth bravo_b = 4" "depth charlie6 = 6"
  "heading_key toUpperCase_ascii bravo_a = heading_key toUpperCase_ascii bravo_b" "\<not> generated bravo_b"
  "stringifyPosition_legacy (pointStart_legacy (Some bravo_a)) = ''3:1''"
  by (simp_all add: bravo_a_def bravo_b_def charlie6_def heading_node_def text_node_def
      heading_key_def generated_def span_def stringifyPosition_legacy_def pointStart_legacy_def
      legacy_point_of_def js_num_def index_or_1_def digits_small digit_def)

lemma visit_golf_doc: "visit golf_doc ''heading'' = [foxtrot] @ golf1 # [] @ golf2 # []"
  by (simp add: golf_doc_def root_of_def visit_def foxtrot_def golf1_def golf2_def
      heading_node_def text_node_def)

lemma golf_doc_prefix: "snd (run (section_visitor toUpperCase_ascii) [] ([foxtrot] @ golf1 # [])) = []"
  by code_simp

lemma golf_doc_facts:
  "depth golf1 = 3" "depth golf2 = 3" "heading_key toUpperCase_ascii golf1 = heading_key toUpperCase_ascii golf2"
  "\<not> generated golf2"
  "stringifyPosition_legacy (pointStart_legacy (Some golf1)) = ''3:1''"
  by (simp_all add: golf1_def golf2_def heading_node_def text_node_def heading_key_def
      generated_def span_def stringifyPosition_legacy_def pointStart_legacy_def
      legacy_point_of_def js_num_def index_or_1_def digits_small digit_def)

theorem C3_section_scope_witness:
  "noDuplicateHeadingsInSection toUpperCase_ascii sections_doc = []
   \<and> noDuplicateHeadingsInSection toUpperCase_ascii golf_doc =
       [\<lparr>reason = ''Do not use headings with similar content per section (3:1)'',
         place = AtNode golf2\<rparr>]
   \<and> noDuplicateHeadingsInSection toUpperCase_ascii increment_doc =
       [\<lparr>reason = ''Do not use headings with similar content per section (3:1)'',
         place = AtNode bravo_b\<rparr>]
   \<and> scope_at (fst (run (section_visitor toUpperCase_ascii) [] [alpha, bravo1])) 3 ''BRAVO'' = Some bravo1
   \<and> scope_at (fst (section_visitor toUpperCase_ascii (fst (run (section_visitor toUpperCase_ascii) [] [alpha, bravo1])) charlie)) 3
        ''BRAVO'' = None"
proof -
  note t1 = C3_section_scope [where upper = toUpperCase_ascii and d = 3 and st = "fst (run (section_visitor toUpperCase_ascii) [] [alpha, bravo1])"
      and h = charlie and tree = sections_doc and pre = "[alpha, bravo1]" and s = charlie
      and mid = "[bravo2, delta]" and ?b2.0 = bravo3 and post = "[echo, bravo4]"]
  note t2 = C3_section_scope [where upper = toUpperCase_ascii and tree = increment_doc and pre' = "[alpha1]" and ?b1.0 = bravo_a
      and mid' = "[charlie6]" and b2' = bravo_b and post' = "[delta6]"]
  have a: "visit sections_doc ''heading'' = [alpha, bravo1] @ charlie # [bravo2, delta] @ bravo3 # [echo, bravo4]
        \<and> depth charlie < depth bravo3
        \<and> (\<forall>m \<in> set [bravo2, delta]. \<not> (depth m = depth bravo3 \<and> heading_key toUpperCase_ascii m = heading_key toUpperCase_ascii bravo3))"
    using visit_sections_doc by (simp add: sections_doc_facts)
  have b: "visit increment_doc ''heading'' = [alpha1] @ bravo_a # [charlie6] @ bravo_b # [delta6]
        \<and> depth bravo_a = depth bravo_b \<and> 1 \<le> depth bravo_b
        \<and> heading_key toUpperCase_ascii bravo_a = heading_key toUpperCase_ascii bravo_b
        \<and> (\<forall>m \<in> set [charlie6]. depth bravo_b \<le> depth m
               \<and> \<not> (depth m = depth bravo_b \<and> heading_key toUpperCase_ascii m = heading_key toUpperCase_ascii bravo_b))"
    using visit_increment_doc by (simp add: increment_doc_facts)
  from t1 a have "noDuplicateHeadingsInSection toUpperCase_ascii sections_doc =
      snd (run (section_visitor toUpperCase_ascii) [] ([alpha, bravo1] @ charlie # [bravo2, delta]))
      @ emitted (section_visitor toUpperCase_ascii) [] ([alpha, bravo1] @ charlie # [bravo2, delta] @ [bravo3]) [echo, bravo4]"
    by blast
  then have 1: "noDuplicateHeadingsInSection toUpperCase_ascii sections_doc = []"
    by (simp only: sections_doc_prefix sections_doc_suffix) simp
  from t2 b have "noDuplicateHeadingsInSection toUpperCase_ascii increment_doc =
      snd (run (section_visitor toUpperCase_ascii) [] ([alpha1] @ bravo_a # [charlie6]))
      @ (if generated bravo_b then []
         else [\<lparr>reason = section_reason @ '' (''
                      @ stringifyPosition_legacy (pointStart_legacy (Some bravo_a)) @ '')'',
                place = AtNode bravo_b\<rparr>])
      @ emitted (section_visitor toUpperCase_ascii) [] ([alpha1] @ bravo_a # [charlie6] @ [bravo_b]) [delta6]"
    by blast
  then have 2: "noDuplicateHeadingsInSection toUpperCase_ascii increment_doc =
       [\<lparr>reason = ''Do not use headings with similar content per section (3:1)'',
         place = AtNode bravo_b\<rparr>]"
    by (simp only: increment_doc_prefix increment_doc_suffix)
      (simp add: increment_doc_facts section_reason_def)
  have 3: "scope_at (fst (run (section_visitor toUpperCase_ascii) [] [alpha, bravo1])) 3 ''BRAVO'' = Some bravo1"
    by (subst section_state) (simp_all add: sections_doc_facts)
  from t1 have "scope_at (fst (section_visitor toUpperCase_ascii (fst (run (section_visitor toUpperCase_ascii) [] [alpha, bravo1])) charlie)) 3 =
      (if depth charlie < 3 then Map.empty
       else if depth charlie = 3
       then (scope_at (fst (run (section_visitor toUpperCase_ascii) [] [alpha, bravo1])) 3)(heading_key toUpperCase_ascii charlie \<mapsto> charlie)
       else scope_at (fst (run (section_visitor toUpperCase_ascii) [] [alpha, bravo1])) 3)"
    by simp
  then have 4: "scope_at (fst (section_visitor toUpperCase_ascii (fst (run (section_visitor toUpperCase_ascii) [] [alpha, bravo1])) charlie)) 3
        ''BRAVO'' = None"
    by (simp add: sections_doc_facts)
  note t3 = C3_section_scope [where upper = toUpperCase_ascii and tree = golf_doc and pre' = "[foxtrot]" and ?b1.0 = golf1
      and mid' = "[]" and b2' = golf2 and post' = "[]"]
  have c: "visit golf_doc ''heading'' = [foxtrot] @ golf1 # [] @ golf2 # []
        \<and> depth golf1 = depth golf2 \<and> 1 \<le> depth golf2
        \<and> heading_key toUpperCase_ascii golf1 = heading_key toUpperCase_ascii golf2
        \<and> (\<forall>m \<in> set []. depth golf2 \<le> depth m
               \<and> \<not> (depth m = depth golf2 \<and> heading_key toUpperCase_ascii m = heading_key toUpperCase_ascii golf2))"
    using visit_golf_doc by (simp add: golf_doc_facts)
  from t3 c have "noDuplicateHeadingsInSection toUpperCase_ascii golf_doc =
      snd (run (section_visitor toUpperCase_ascii) [] ([foxtrot] @ golf1 # []))
      @ (if generated golf2 then []
         else [\<lparr>reason = section_reason @ '' (''
                      @ stringifyPosition_legacy (pointStart_legacy (Some golf1)) @ '')'',
                place = AtNode golf2\<rparr>])
      @ emitted (section_visitor toUpperCase_ascii) [] ([foxtrot] @ golf1 # [] @ [golf2]) []"
    by blast
  then have 5: "noDuplicateHeadingsInSection toUpperCase_ascii golf_doc =
       [\<lparr>reason = ''Do not use headings with similar content per section (3:1)'',
         place = AtNode golf2\<rparr>]"
    by (simp only: golf_doc_prefix) (simp add: golf_doc_facts section_reason_def emitted_def)
  from 1 2 3 4 5 show ?thesis by simp
qed

text \<open>
  The claim as first stated has the second of two headings with the same text
  in one section reported in every case. The rule tests \<open>!generated(node)\<close>
  before it reports: when the second heading has no position, nothing is
  reported.
\<close>

theorem C3_generated_heading_counterexample:
  "visit generated_golf_doc ''heading'' = [foxtrot, golf1, golf_generated]
   \<and> depth foxtrot = 2 \<and> depth golf1 = 3 \<and> depth golf_generated = 3
   \<and> toString golf1 = ''Golf'' \<and> toString golf_generated = ''Golf''
   \<and> generated golf_generated
   \<and> noDuplicateHeadingsInSection toUpperCase_ascii generated_golf_doc = []"
proof -
  have "visit generated_golf_doc ''heading'' = [foxtrot, golf1, golf_generated]"
    by (simp add: generated_golf_doc_def root_of_def visit_def foxtrot_def golf1_def
        golf_generated_def heading_node_def text_node_def)
  moreover have "depth foxtrot = 2" "depth golf1 = 3" "depth golf_generated = 3"
    "toString golf1 = ''Golf''" "toString golf_generated = ''Golf''" "generated golf_generated"
    by (simp_all add: foxtrot_def golf1_def golf_generated_def heading_node_def text_node_def
        generated_def)
  moreover have "noDuplicateHeadingsInSection toUpperCase_ascii generated_golf_doc = []"
    by code_simp
  ultimately show ?thesis by simp
qed

subsection \<open>final-definition\<close>

lemma start_line_pos: "pointStart n \<noteq> None \<Longrightarrow> 0 < start_line n"
  by (auto simp: start_line_def pointStart_def valid_point_def split: option.splits if_splits)

lemma final_definition_content:
  "is_content space n \<Longrightarrow>
   final_definition_visitor space l n = (if l = 0 then start_line n else l, [])"
  by (auto simp: final_definition_visitor_def is_content_def start_line_def Let_def)

lemma final_definition_other:
  "\<not> is_content space n \<Longrightarrow> fst (final_definition_visitor space l n) = l"
  by (auto simp: final_definition_visitor_def is_content_def Let_def split: option.splits)

lemma fst_run_Cons: "fst (run f s (x # xs)) = fst (run f (fst (f s x)) xs)"
  by (simp split: prod.splits)

lemma final_definition_state_gen:
  "fst (run (final_definition_visitor space) l xs) =
     (if l \<noteq> 0 then l else case find (is_content space) xs of None \<Rightarrow> 0 | Some c \<Rightarrow> start_line c)"
proof (induction xs arbitrary: l)
  case Nil
  then show ?case by simp
next
  case (Cons x xs)
  show ?case
  proof (cases "is_content space x")
    case True
    then have "0 < start_line x"
      by (simp add: start_line_pos is_content_def)
    with True show ?thesis
      by (simp only: fst_run_Cons Cons.IH) (simp add: final_definition_content)
  next
    case False
    then show ?thesis
      by (simp only: fst_run_Cons Cons.IH) (simp add: final_definition_other)
  qed
qed

lemma final_definition_state:
  "fst (run (final_definition_visitor space) 0 xs) =
     (case find (is_content space) xs of None \<Rightarrow> 0 | Some c \<Rightarrow> start_line c)"
  by (simp add: final_definition_state_gen)

lemma find_is_content_line:
  "find (is_content space) xs = Some c \<Longrightarrow> 0 < start_line c"
  by (auto simp: find_Some_iff is_content_def intro: start_line_pos)

lemma final_definition_emit:
  assumes "ntype d = ''definition''" and "pointStart d \<noteq> None"
  shows "snd (final_definition_visitor space (fst (run (final_definition_visitor space) 0 pre)) d) =
     (case find (is_content space) pre of
        None \<Rightarrow> []
      | Some c \<Rightarrow>
        if start_line d < start_line c
        then [\<lparr>reason = ''Move definitions to the end of the file (after the node at line `''
                         @ digits (start_line c) @ ''`)'',
                place = AtNode d\<rparr>]
        else [])"
proof (cases "find (is_content space) pre")
  case None
  with assms show ?thesis
    by (auto simp: final_definition_state final_definition_visitor_def Let_def)
next
  case (Some c)
  with assms find_is_content_line [OF Some] show ?thesis
    by (auto simp: final_definition_state final_definition_visitor_def Let_def start_line_def)
qed

text \<open>
  C7. final-definition remembers the start line of the first content node it
  sees (a node with a start point that is not the root, not a definition and
  not an HTML comment, which is an html node whose text starts with \<open><!--\<close>
  after any white space); the nodes are seen in the order of the reverse visit.
  A definition with a start point that is then visited is reported exactly when
  a line is remembered and the definition starts on a line before it, and the
  message cites the remembered line.
\<close>

theorem C7_final_definition:
  "fst (run (final_definition_visitor space) 0 pre) =
     (case find (is_content space) pre of None \<Rightarrow> 0 | Some c \<Rightarrow> start_line c)
   \<and> (visit_all_reverse tree = pre @ d # post
        \<and> ntype d = ''definition'' \<and> pointStart d \<noteq> None \<longrightarrow>
        remarkLintFinalDefinition space tree =
          snd (run (final_definition_visitor space) 0 pre)
          @ (case find (is_content space) pre of
               None \<Rightarrow> []
             | Some c \<Rightarrow>
               if start_line d < start_line c
               then [\<lparr>reason = ''Move definitions to the end of the file (after the node at line `''
                                @ digits (start_line c) @ ''`)'',
                       place = AtNode d\<rparr>]
               else [])
          @ emitted (final_definition_visitor space) 0 (pre @ [d]) post)"
proof (intro conjI impI)
  show "fst (run (final_definition_visitor space) 0 pre) =
     (case find (is_content space) pre of None \<Rightarrow> 0 | Some c \<Rightarrow> start_line c)"
    by (rule final_definition_state)
next
  assume h: "visit_all_reverse tree = pre @ d # post
        \<and> ntype d = ''definition'' \<and> pointStart d \<noteq> None"
  have "remarkLintFinalDefinition space tree =
      snd (run (final_definition_visitor space) 0 pre)
      @ snd (final_definition_visitor space (fst (run (final_definition_visitor space) 0 pre)) d)
      @ emitted (final_definition_visitor space) 0 (pre @ [d]) post"
    using h unfolding remarkLintFinalDefinition_def by (simp add: run_split)
  with h show "remarkLintFinalDefinition space tree =
          snd (run (final_definition_visitor space) 0 pre)
          @ (case find (is_content space) pre of
               None \<Rightarrow> []
             | Some c \<Rightarrow>
               if start_line d < start_line c
               then [\<lparr>reason = ''Move definitions to the end of the file (after the node at line `''
                                @ digits (start_line c) @ ''`)'',
                       place = AtNode d\<rparr>]
               else [])
          @ emitted (final_definition_visitor space) 0 (pre @ [d]) post"
    by (simp add: final_definition_emit)
qed

lemma visit_definition_doc:
  "visit_all_reverse definition_doc =
     [definition_doc, paragraph_node ''Another paragraph.'' 5 19,
      text_node ''Another paragraph.'' 5 1 19]
     @ example_definition
     # [paragraph_node ''Paragraph.'' 1 11, text_node ''Paragraph.'' 1 1 11]"
  by (simp add: definition_doc_def root_of_def paragraph_node_def example_definition_def
      definition_node_def text_node_def)

lemma definition_doc_facts:
  "ntype example_definition = ''definition''"
  "pointStart example_definition \<noteq> None"
  "start_line example_definition = 3"
  "\<not> is_content white_space definition_doc"
  "is_content white_space (paragraph_node ''Another paragraph.'' 5 19)"
  "start_line (paragraph_node ''Another paragraph.'' 5 19) = 5"
  by (simp_all add: example_definition_def definition_node_def definition_doc_def root_of_def
      paragraph_node_def is_content_def start_line_def pointStart_def valid_point_def span_def)

lemma visit_comments_doc:
  "visit_all_reverse comments_doc =
     [comments_doc, example_2, comment_node]
     @ example_1
     # [paragraph_node ''Paragraph.'' 1 11, text_node ''Paragraph.'' 1 1 11]"
  "visit_all_reverse markup_doc =
     [markup_doc, example_2, markup_node]
     @ example_1
     # [paragraph_node ''Paragraph.'' 1 11, text_node ''Paragraph.'' 1 1 11]"
  by (simp_all add: comments_doc_def markup_doc_def root_of_def paragraph_node_def example_1_def
      example_2_def comment_node_def markup_node_def html_node_def definition_node_def
      text_node_def)

lemma example_1_facts:
  "ntype example_1 = ''definition''"
  "pointStart example_1 \<noteq> None"
  "start_line example_1 = 3"
  "start_line markup_node = 5"
  by (simp_all add: example_1_def definition_node_def markup_node_def html_node_def
      start_line_def pointStart_def valid_point_def span_def)

lemma comments_doc_content:
  "find (is_content white_space) [comments_doc, example_2, comment_node] = None"
  "find (is_content white_space) [markup_doc, example_2, markup_node] = Some markup_node"
  by code_simp+

theorem C7_final_definition_witness:
  "remarkLintFinalDefinition white_space definition_doc =
     [\<lparr>reason = ''Move definitions to the end of the file (after the node at line `5`)'',
       place = AtNode example_definition\<rparr>]
   \<and> fst (run (final_definition_visitor white_space) 0
          [definition_doc, paragraph_node ''Another paragraph.'' 5 19,
           text_node ''Another paragraph.'' 5 1 19]) = 5
   \<and> remarkLintFinalDefinition white_space comments_doc = []
   \<and> remarkLintFinalDefinition white_space markup_doc =
     [\<lparr>reason = ''Move definitions to the end of the file (after the node at line `5`)'',
       place = AtNode example_1\<rparr>]
   \<and> html_comment white_space (nvalue comment_node)
   \<and> html_comment white_space (Some ([CHR 0x20, CHR 0xA0, CHR 0x09] @ ''<!-- a -->''))
   \<and> \<not> html_comment white_space (nvalue markup_node)
   \<and> \<not> html_comment white_space (Some ''a <!-- b -->'')"
proof -
  note t = C7_final_definition [where space = white_space and pre =
      "[definition_doc, paragraph_node ''Another paragraph.'' 5 19,
        text_node ''Another paragraph.'' 5 1 19]"
      and tree = definition_doc and d = example_definition and post =
      "[paragraph_node ''Paragraph.'' 1 11, text_node ''Paragraph.'' 1 1 11]"]
  have pre: "snd (run (final_definition_visitor white_space) 0
      [definition_doc, paragraph_node ''Another paragraph.'' 5 19,
       text_node ''Another paragraph.'' 5 1 19]) = []"
    by code_simp
  have post: "emitted (final_definition_visitor white_space) 0
      ([definition_doc, paragraph_node ''Another paragraph.'' 5 19,
        text_node ''Another paragraph.'' 5 1 19] @ [example_definition])
      [paragraph_node ''Paragraph.'' 1 11, text_node ''Paragraph.'' 1 1 11] = []"
    unfolding emitted_def by code_simp
  from t have 1: "fst (run (final_definition_visitor white_space) 0
          [definition_doc, paragraph_node ''Another paragraph.'' 5 19,
           text_node ''Another paragraph.'' 5 1 19]) = 5"
    by (simp add: definition_doc_facts)
  from t visit_definition_doc have "remarkLintFinalDefinition white_space definition_doc =
      snd (run (final_definition_visitor white_space) 0
        [definition_doc, paragraph_node ''Another paragraph.'' 5 19,
         text_node ''Another paragraph.'' 5 1 19])
      @ (case find (is_content white_space)
                [definition_doc, paragraph_node ''Another paragraph.'' 5 19,
                 text_node ''Another paragraph.'' 5 1 19] of
           None \<Rightarrow> []
         | Some c \<Rightarrow>
           if start_line example_definition < start_line c
           then [\<lparr>reason = ''Move definitions to the end of the file (after the node at line `''
                            @ digits (start_line c) @ ''`)'',
                   place = AtNode example_definition\<rparr>]
           else [])
      @ emitted (final_definition_visitor white_space) 0
          ([definition_doc, paragraph_node ''Another paragraph.'' 5 19,
            text_node ''Another paragraph.'' 5 1 19] @ [example_definition])
          [paragraph_node ''Paragraph.'' 1 11, text_node ''Paragraph.'' 1 1 11]"
    using definition_doc_facts(1,2) by blast
  then have 2: "remarkLintFinalDefinition white_space definition_doc =
     [\<lparr>reason = ''Move definitions to the end of the file (after the node at line `5`)'',
       place = AtNode example_definition\<rparr>]"
    by (simp only: pre post) (simp add: definition_doc_facts digits_small digit_def)
  note t2 = C7_final_definition [where space = white_space
      and pre = "[comments_doc, example_2, comment_node]"
      and tree = comments_doc and d = example_1 and post =
      "[paragraph_node ''Paragraph.'' 1 11, text_node ''Paragraph.'' 1 1 11]"]
  have pre2: "snd (run (final_definition_visitor white_space) 0
      [comments_doc, example_2, comment_node]) = []"
    by code_simp
  have post2: "emitted (final_definition_visitor white_space) 0
      ([comments_doc, example_2, comment_node] @ [example_1])
      [paragraph_node ''Paragraph.'' 1 11, text_node ''Paragraph.'' 1 1 11] = []"
    unfolding emitted_def by code_simp
  from t2 visit_comments_doc(1) have "remarkLintFinalDefinition white_space comments_doc =
      snd (run (final_definition_visitor white_space) 0 [comments_doc, example_2, comment_node])
      @ (case find (is_content white_space) [comments_doc, example_2, comment_node] of
           None \<Rightarrow> []
         | Some c \<Rightarrow>
           if start_line example_1 < start_line c
           then [\<lparr>reason = ''Move definitions to the end of the file (after the node at line `''
                            @ digits (start_line c) @ ''`)'',
                   place = AtNode example_1\<rparr>]
           else [])
      @ emitted (final_definition_visitor white_space) 0
          ([comments_doc, example_2, comment_node] @ [example_1])
          [paragraph_node ''Paragraph.'' 1 11, text_node ''Paragraph.'' 1 1 11]"
    using example_1_facts(1,2) by blast
  then have 3: "remarkLintFinalDefinition white_space comments_doc = []"
    by (simp only: pre2 post2 comments_doc_content) simp
  note t3 = C7_final_definition [where space = white_space
      and pre = "[markup_doc, example_2, markup_node]"
      and tree = markup_doc and d = example_1 and post =
      "[paragraph_node ''Paragraph.'' 1 11, text_node ''Paragraph.'' 1 1 11]"]
  have pre3: "snd (run (final_definition_visitor white_space) 0
      [markup_doc, example_2, markup_node]) = []"
    by code_simp
  have post3: "emitted (final_definition_visitor white_space) 0
      ([markup_doc, example_2, markup_node] @ [example_1])
      [paragraph_node ''Paragraph.'' 1 11, text_node ''Paragraph.'' 1 1 11] = []"
    unfolding emitted_def by code_simp
  from t3 visit_comments_doc(2) have "remarkLintFinalDefinition white_space markup_doc =
      snd (run (final_definition_visitor white_space) 0 [markup_doc, example_2, markup_node])
      @ (case find (is_content white_space) [markup_doc, example_2, markup_node] of
           None \<Rightarrow> []
         | Some c \<Rightarrow>
           if start_line example_1 < start_line c
           then [\<lparr>reason = ''Move definitions to the end of the file (after the node at line `''
                            @ digits (start_line c) @ ''`)'',
                   place = AtNode example_1\<rparr>]
           else [])
      @ emitted (final_definition_visitor white_space) 0
          ([markup_doc, example_2, markup_node] @ [example_1])
          [paragraph_node ''Paragraph.'' 1 11, text_node ''Paragraph.'' 1 1 11]"
    using example_1_facts(1,2) by blast
  then have 4: "remarkLintFinalDefinition white_space markup_doc =
     [\<lparr>reason = ''Move definitions to the end of the file (after the node at line `5`)'',
       place = AtNode example_1\<rparr>]"
    by (simp only: pre3 post3 comments_doc_content)
      (simp add: example_1_facts digits_small digit_def)
  have 5: "html_comment white_space (nvalue comment_node)"
    "html_comment white_space (Some ([CHR 0x20, CHR 0xA0, CHR 0x09] @ ''<!-- a -->''))"
    "\<not> html_comment white_space (nvalue markup_node)"
    "\<not> html_comment white_space (Some ''a <!-- b -->'')"
    by code_simp+
  from 1 2 3 4 5 show ?thesis by simp
qed

subsection \<open>no-missing-blank-lines\<close>

lemma visit_parents_self: "(n, ctx) \<in> set (visit_parents ctx n)"
  by (cases n) simp

lemma visit_parents_children:
  "(\<forall>q j. q \<in> set (visit_all n) \<and> j < length (children q) \<longrightarrow>
      (children q ! j, Some (j, q)) \<in> set (visit_parents ctx n))"
  "(\<forall>j < length cs. (cs ! j, Some (k + j, par)) \<in> set (visit_children par k cs))
   \<and> (\<forall>c \<in> set cs. \<forall>q j. q \<in> set (visit_all c) \<and> j < length (children q) \<longrightarrow>
         (children q ! j, Some (j, q)) \<in> set (visit_children par k cs))"
proof (induction ctx n and par k cs rule: visit_parents_visit_children.induct)
  case (1 ctx t p i v a d cs)
  then show ?case by fastforce
next
  case (2 par k)
  then show ?case by simp
next
  case (3 par k c cs)
  show ?case
  proof (intro conjI allI impI ballI)
    fix j
    assume "j < length (c # cs)"
    then show "((c # cs) ! j, Some (k + j, par)) \<in> set (visit_children par k (c # cs))"
      using 3 by (cases j) (auto simp: visit_parents_self)
  next
    fix c' q j
    assume "c' \<in> set (c # cs)" and "q \<in> set (visit_all c') \<and> j < length (children q)"
    then show "(children q ! j, Some (j, q)) \<in> set (visit_children par k (c # cs))"
      using 3 by auto
  qed
qed

lemma missing_blank_lines_pair:
  assumes "Suc i < length (children p)" and "b = children p ! Suc i"
    and "pointEnd a = Some e" and "pointStart b = Some s" and "ntype b \<in> set types"
  shows "missing_blank_lines_visitor except (a, Some (i, p)) =
     (if (\<not> except \<or> ntype p \<noteq> ''listItem'') \<and> line s = line e + 1
      then [\<lparr>reason = ''Missing blank line before block node'', place = AtNode b\<rparr>]
      else [])"
  using assms
  by (simp add: missing_blank_lines_visitor_def nth_opt_def pointStart_opt_def Let_def)

text \<open>
  C6. no-missing-blank-lines. Every child of every node of the tree is visited
  with its index and its parent. With the default configuration, when a node
  with an end point is visited and its next sibling has a start point and a
  block type, one diagnostic is emitted at the next sibling exactly when it
  starts on the line after the one the node ends on (so none for a gap of two
  or more lines). With \<open>exceptTightLists\<close> set to true, the pair yields
  nothing when the parent is a listItem.
\<close>

theorem C6_missing_blank_lines:
  "(p \<in> set (visit_all tree) \<and> i < length (children p) \<longrightarrow>
      (children p ! i, Some (i, p)) \<in> set (visit_parents None tree))
   \<and> (visit_parents None tree = pre @ (a, Some (i, p)) # post
        \<and> Suc i < length (children p) \<and> b = children p ! Suc i
        \<and> pointEnd a = Some e \<and> pointStart b = Some s \<and> ntype b \<in> set types \<longrightarrow>
        remarkLintNoMissingBlankLines tree None =
          concat (map (missing_blank_lines_visitor False) pre)
          @ (if line s = line e + 1
             then [\<lparr>reason = ''Missing blank line before block node'', place = AtNode b\<rparr>]
             else [])
          @ concat (map (missing_blank_lines_visitor False) post)
        \<and> (ntype p = ''listItem'' \<longrightarrow>
             remarkLintNoMissingBlankLines tree (Some \<lparr>exceptTightLists = Some True\<rparr>) =
               concat (map (missing_blank_lines_visitor True) pre)
               @ concat (map (missing_blank_lines_visitor True) post)))"
proof (intro conjI impI)
  assume "p \<in> set (visit_all tree) \<and> i < length (children p)"
  then show "(children p ! i, Some (i, p)) \<in> set (visit_parents None tree)"
    using visit_parents_children(1) [of tree None] by blast
next
  assume h: "visit_parents None tree = pre @ (a, Some (i, p)) # post
        \<and> Suc i < length (children p) \<and> b = children p ! Suc i
        \<and> pointEnd a = Some e \<and> pointStart b = Some s \<and> ntype b \<in> set types"
  then have "Suc i < length (children p)" and "b = children p ! Suc i"
    and "pointEnd a = Some e" and "pointStart b = Some s" and "ntype b \<in> set types"
    by blast+
  from missing_blank_lines_pair [OF this, of False]
  have "missing_blank_lines_visitor False (a, Some (i, p)) =
     (if line s = line e + 1
      then [\<lparr>reason = ''Missing blank line before block node'', place = AtNode b\<rparr>]
      else [])"
    by simp
  with h show "remarkLintNoMissingBlankLines tree None =
          concat (map (missing_blank_lines_visitor False) pre)
          @ (if line s = line e + 1
             then [\<lparr>reason = ''Missing blank line before block node'', place = AtNode b\<rparr>]
             else [])
          @ concat (map (missing_blank_lines_visitor False) post)"
    by (simp add: remarkLintNoMissingBlankLines_def)
next
  assume h: "visit_parents None tree = pre @ (a, Some (i, p)) # post
        \<and> Suc i < length (children p) \<and> b = children p ! Suc i
        \<and> pointEnd a = Some e \<and> pointStart b = Some s \<and> ntype b \<in> set types"
    and li: "ntype p = ''listItem''"
  then have "Suc i < length (children p)" and "b = children p ! Suc i"
    and "pointEnd a = Some e" and "pointStart b = Some s" and "ntype b \<in> set types"
    by blast+
  from missing_blank_lines_pair [OF this, of True] li
  have "missing_blank_lines_visitor True (a, Some (i, p)) = []"
    by simp
  with h show "remarkLintNoMissingBlankLines tree (Some \<lparr>exceptTightLists = Some True\<rparr>) =
               concat (map (missing_blank_lines_visitor True) pre)
               @ concat (map (missing_blank_lines_visitor True) post)"
    by (simp add: remarkLintNoMissingBlankLines_def)
qed

lemma map_fst_visit_parents:
  "map fst (visit_parents ctx n) = visit_all n"
  "map fst (visit_children par k cs) = concat (map visit_all cs)"
  by (induction ctx n and par k cs rule: visit_parents_visit_children.induct) simp_all

lemma blank_lines_doc_children:
  "children blank_lines_doc =
     [leaf ''heading'' (span 1 1 1 6), leaf ''heading'' (span 2 1 2 7),
      branch ''list'' (span 4 1 5 10) [outer_item], leaf ''paragraph'' (span 7 1 7 11)]"
  "children outer_item = [leaf ''paragraph'' (span 4 3 4 12), inner_list]"
  "ntype outer_item = ''listItem''"
  by (simp_all add: blank_lines_doc_def root_of_def outer_item_def branch_def)

lemma blank_lines_doc_points:
  "pointEnd (leaf ''heading'' (span 1 1 1 6)) = Some \<lparr>line = 1, column = 6, offset = None\<rparr>"
  "pointStart (leaf ''heading'' (span 2 1 2 7)) = Some \<lparr>line = 2, column = 1, offset = None\<rparr>"
  "pointEnd (leaf ''heading'' (span 2 1 2 7)) = Some \<lparr>line = 2, column = 7, offset = None\<rparr>"
  "pointStart (branch ''list'' (span 4 1 5 10) [outer_item]) =
     Some \<lparr>line = 4, column = 1, offset = None\<rparr>"
  "pointEnd (leaf ''paragraph'' (span 4 3 4 12)) = Some \<lparr>line = 4, column = 12, offset = None\<rparr>"
  "pointStart inner_list = Some \<lparr>line = 5, column = 3, offset = None\<rparr>"
  by (simp_all add: leaf_def branch_def inner_list_def span_def pointStart_def pointEnd_def
      valid_point_def)

lemma blank_lines_doc_visit:
  "visit_parents None blank_lines_doc =
     [(blank_lines_doc, None)]
     @ (leaf ''heading'' (span 1 1 1 6), Some (0, blank_lines_doc))
     # ((leaf ''heading'' (span 2 1 2 7), Some (1, blank_lines_doc))
        # visit_parents (Some (2, blank_lines_doc)) (branch ''list'' (span 4 1 5 10) [outer_item])
        @ [(leaf ''paragraph'' (span 7 1 7 11), Some (3, blank_lines_doc))])"
  by (simp add: blank_lines_doc_def root_of_def leaf_def branch_def)

theorem C6_missing_blank_lines_witness:
  "remarkLintNoMissingBlankLines blank_lines_doc None =
     [\<lparr>reason = ''Missing blank line before block node'',
       place = AtNode (leaf ''heading'' (span 2 1 2 7))\<rparr>,
      \<lparr>reason = ''Missing blank line before block node'', place = AtNode inner_list\<rparr>]
   \<and> remarkLintNoMissingBlankLines blank_lines_doc (Some \<lparr>exceptTightLists = Some True\<rparr>) =
     [\<lparr>reason = ''Missing blank line before block node'',
       place = AtNode (leaf ''heading'' (span 2 1 2 7))\<rparr>]
   \<and> (outer_item, Some (0, branch ''list'' (span 4 1 5 10) [outer_item]))
       \<in> set (visit_parents None blank_lines_doc)"
proof -
  let ?h1 = "leaf ''heading'' (span 1 1 1 6)"
  let ?h2 = "leaf ''heading'' (span 2 1 2 7)"
  let ?post = "(?h2, Some (1, blank_lines_doc))
        # visit_parents (Some (2, blank_lines_doc)) (branch ''list'' (span 4 1 5 10) [outer_item])
        @ [(leaf ''paragraph'' (span 7 1 7 11), Some (3, blank_lines_doc))]"
  note t = C6_missing_blank_lines [where tree = blank_lines_doc and p = blank_lines_doc
      and i = 0 and pre = "[(blank_lines_doc, None)]" and a = ?h1 and post = ?post and b = ?h2
      and e = "\<lparr>line = 1, column = 6, offset = None\<rparr>"
      and s = "\<lparr>line = 2, column = 1, offset = None\<rparr>"]
  note t' = C6_missing_blank_lines [where tree = blank_lines_doc
      and p = "branch ''list'' (span 4 1 5 10) [outer_item]" and i = 0]
  have h: "visit_parents None blank_lines_doc =
        [(blank_lines_doc, None)] @ (?h1, Some (0, blank_lines_doc)) # ?post
      \<and> Suc 0 < length (children blank_lines_doc) \<and> ?h2 = children blank_lines_doc ! Suc 0
      \<and> pointEnd ?h1 = Some \<lparr>line = 1, column = 6, offset = None\<rparr>
      \<and> pointStart ?h2 = Some \<lparr>line = 2, column = 1, offset = None\<rparr>
      \<and> ntype ?h2 \<in> set types"
  proof (intro conjI)
    show "visit_parents None blank_lines_doc =
        [(blank_lines_doc, None)] @ (?h1, Some (0, blank_lines_doc)) # ?post"
      by (rule blank_lines_doc_visit)
    show "Suc 0 < length (children blank_lines_doc)"
      by (simp add: blank_lines_doc_children)
    show "?h2 = children blank_lines_doc ! Suc 0"
      by (simp add: blank_lines_doc_children)
    show "pointEnd ?h1 = Some \<lparr>line = 1, column = 6, offset = None\<rparr>"
      by (rule blank_lines_doc_points)
    show "pointStart ?h2 = Some \<lparr>line = 2, column = 1, offset = None\<rparr>"
      by (rule blank_lines_doc_points)
    show "ntype ?h2 \<in> set types"
      by (simp add: leaf_def types_def)
  qed
  from t h have "remarkLintNoMissingBlankLines blank_lines_doc None =
      concat (map (missing_blank_lines_visitor False) [(blank_lines_doc, None)])
      @ (if line \<lparr>line = 2, column = 1, offset = None\<rparr>
            = line \<lparr>line = 1, column = 6, offset = None\<rparr> + 1
         then [\<lparr>reason = ''Missing blank line before block node'', place = AtNode ?h2\<rparr>]
         else [])
      @ concat (map (missing_blank_lines_visitor False) ?post)"
    by blast
  moreover have "concat (map (missing_blank_lines_visitor False) ?post) =
      [\<lparr>reason = ''Missing blank line before block node'', place = AtNode inner_list\<rparr>]"
    by code_simp
  moreover have "concat (map (missing_blank_lines_visitor False) [(blank_lines_doc, None)]) = []"
    by (simp add: missing_blank_lines_visitor_def)
  ultimately have 1: "remarkLintNoMissingBlankLines blank_lines_doc None =
     [\<lparr>reason = ''Missing blank line before block node'', place = AtNode ?h2\<rparr>,
      \<lparr>reason = ''Missing blank line before block node'', place = AtNode inner_list\<rparr>]"
    by simp
  have 2: "remarkLintNoMissingBlankLines blank_lines_doc (Some \<lparr>exceptTightLists = Some True\<rparr>) =
     [\<lparr>reason = ''Missing blank line before block node'', place = AtNode ?h2\<rparr>]"
    by code_simp
  have "branch ''list'' (span 4 1 5 10) [outer_item] \<in> set (visit_all blank_lines_doc)
      \<and> 0 < length (children (branch ''list'' (span 4 1 5 10) [outer_item]))"
    by (simp add: blank_lines_doc_def root_of_def leaf_def branch_def)
  with t' have 3: "(outer_item, Some (0, branch ''list'' (span 4 1 5 10) [outer_item]))
       \<in> set (visit_parents None blank_lines_doc)"
    by (simp add: branch_def)
  from 1 2 3 show ?thesis by simp
qed

subsection \<open>Nodes without a position\<close>

text \<open>Where the visitors skip a node without a position.\<close>

lemma rule_style_skips_generated:
  "position_of n = None \<Longrightarrow> rule_style_visitor file opt n = (opt, [])"
  by (auto simp: position_of_def rule_style_visitor_def split: option.splits)

lemma ruleStyle_skips_generated:
  "generated n \<Longrightarrow> ruleStyle_visitor file opt n = (opt, [])"
  by (simp add: ruleStyle_visitor_def Let_def)

lemma heading_punctuation_skips_generated:
  "position_of n = None \<Longrightarrow> heading_punctuation_visitor chars n = []"
  by (simp add: heading_punctuation_visitor_def)

lemma list_item_spacing_skips_generated_list:
  "generated n \<Longrightarrow> list_item_spacing_visitor infer n = []"
  by (simp add: list_item_spacing_visitor_def)

lemma duplicate_definitions_skips_generated:
  "position_of n = None \<Longrightarrow> duplicate_definitions_visitor m n = (m, [])"
  by (simp add: duplicate_definitions_visitor_def)

lemma duplicate_headings_skips_generated:
  "position_of n = None \<Longrightarrow> duplicate_headings_visitor upper m n = (m, [])"
  by (simp add: duplicate_headings_visitor_def)

lemma section_skips_generated:
  "generated n \<Longrightarrow> snd (section_visitor upper st n) = []"
  by (simp add: section_visitor_def Let_def)

lemma final_definition_skips_generated:
  "pointStart n = None \<Longrightarrow> final_definition_visitor space l n = (l, [])"
  by (simp add: final_definition_visitor_def)

lemma blockquote_skips_generated:
  "pointStart n = None \<Longrightarrow> blockquote_visitor opt n = (opt, [])"
  by (simp add: blockquote_visitor_def Let_def split: option.splits)

lemma missing_blank_lines_skips_generated:
  "Suc i < length (children p) \<Longrightarrow> pointStart (children p ! Suc i) = None \<Longrightarrow>
   missing_blank_lines_visitor except (a, Some (i, p)) = []"
  by (simp add: missing_blank_lines_visitor_def nth_opt_def pointStart_opt_def Let_def
      split: option.splits)

text \<open>
  C5. The claim: in every rule, a node without a position is never the subject
  of a diagnostic; the rule skips it and fabricates no location. The visitors
  above skip such a node, and list-item-spacing skips a list without a
  position. It does not skip an item without a position inside a list that has
  one: for a list whose first item has no position and whose second item
  starts on line 3, it reports an extraneous line after the first item, at a
  place that starts at null line and column.
\<close>

theorem C5_generated_list_item_reported:
  "generated generated_item \<and> position_of generated_item = None
   \<and> \<not> generated grown_list
   \<and> listItemSpacing (root_of [grown_list]) None =
       [\<lparr>reason = ''Extraneous new line after list item'',
         place = AtRange \<lparr>lline = None, lcolumn = None, loffset = None\<rparr>
                         \<lparr>lline = Some 3, lcolumn = Some 1, loffset = None\<rparr>\<rparr>]"
proof -
  have "generated generated_item" "position_of generated_item = None"
    by (simp_all add: generated_item_def generated_def position_of_def pointStart_def)
  moreover have "\<not> generated grown_list"
    by (simp add: grown_list_def branch_def generated_def span_def)
  moreover have "listItemSpacing (root_of [grown_list]) None =
       [\<lparr>reason = ''Extraneous new line after list item'',
         place = AtRange \<lparr>lline = None, lcolumn = None, loffset = None\<rparr>
                         \<lparr>lline = Some 3, lcolumn = Some 1, loffset = None\<rparr>\<rparr>]"
    by code_simp
  ultimately show ?thesis by simp
qed

subsection \<open>final-newline\<close>

text \<open>
  C10. The final-newline rule emits its diagnostic exactly when the
  source text is non-empty and its last character is not a line feed.
  An empty source gives no diagnostic, and the diagnostic carries no
  place.
\<close>

theorem C10_final_newline:
  "remarkLintFinalNewline src =
     (if src \<noteq> [] \<and> last src \<noteq> CHR 0x0A
      then [\<lparr>reason = ''Missing newline character at end of file'', place = NoPlace\<rparr>]
      else [])"
proof (cases "src = []")
  case True
  then show ?thesis
    by (simp add: remarkLintFinalNewline_def charAt_def)
next
  case False
  then have "0 < length src" by simp
  then have ix: "nat (int (length src) - 1) = length src - 1" by simp
  have "src ! (length src - 1) = last src"
    using False by (simp add: last_conv_nth)
  with False ix show ?thesis
    by (simp add: remarkLintFinalNewline_def charAt_def Let_def)
qed

theorem C10_final_newline_witness:
  "remarkLintFinalNewline ''Bravo'' =
     [\<lparr>reason = ''Missing newline character at end of file'', place = NoPlace\<rparr>]
   \<and> remarkLintFinalNewline [] = []
   \<and> remarkLintFinalNewline (''Alpha'' @ [CHR 0x0A]) = []"
  using C10_final_newline [of "''Bravo''"] C10_final_newline [of "[]"]
    C10_final_newline [of "''Alpha'' @ [CHR 0x0A]"]
  by simp

end
